theory Spec2Isabelle
  imports Complex_Main
begin

section \<open>The CSP viewer: inbound events over the shared graph\<close>

text \<open>
  The widget view \<^verbatim>\<open>CSPViewer\<close> owns a \<^verbatim>\<open>Graph\<close> and reacts to the controller's
  events by mutating the styles and domains of the graph's node and edge objects.
  The objects are shared between \<^verbatim>\<open>graph.edges\<close> and \<^verbatim>\<open>graph.idMap\<close>, so the model
  keeps them in a store indexed by address; a mutation is an update of the store.
  An exception leaves the mutations made before it in place, so every handler returns
  the view it reached together with the exception, if one was thrown.
\<close>

type_synonym ident = string
type_synonym addr = nat

datatype error = TypeError

record styles =
  stroke :: "string option"
  strokeWidth :: "int option"

record gobj =
  styles :: styles
  domain :: "string list option"

text \<open>
  Modelled from the spec: the class \<^verbatim>\<open>Graph\<close> (\<^verbatim>\<open>Graph.ts\<close>) is not among the sources.
  The spec gives it a node sequence, an edge sequence and \<^verbatim>\<open>idMap\<close>, from an id to the
  live node or edge object.
\<close>

record graph =
  heap :: "addr \<Rightarrow> gobj"
  node_refs :: "addr list"
  edge_refs :: "addr list"
  idMap :: "ident \<rightharpoonup> addr"

record vue_data =
  output_text :: "string option"

datatype out_msg =
    InitialRender
  | DomainSplitReply "string list option"
  | FineStepClick
  | StepClick
  | AutoStepClick

record view =
  graph :: graph
  vue :: "vue_data option"
  previouslyRendered :: bool
  outbox :: "out_msg list"

datatype event =
    HighlightArcs "ident list option" "string option" string
  | SetDomains "ident list" "string list list"
  | HighlightNodes "ident list" "string option"
  | ChooseDomainSplit "string list"
  | Output string
  | Unrecognized

text \<open>JavaScript truthiness of an optional string: absent and the empty string are falsy.\<close>

definition truthy_str :: "string option \<Rightarrow> bool" where
  "truthy_str c = (case c of None \<Rightarrow> False | Some s \<Rightarrow> s \<noteq> [])"

definition upd_obj :: "view \<Rightarrow> addr \<Rightarrow> (gobj \<Rightarrow> gobj) \<Rightarrow> view" where
  "upd_obj v a f = v\<lparr>graph := (graph v)\<lparr>heap := (heap (graph v))(a := f (heap (graph v) a))\<rparr>\<rparr>"

text \<open>The two \<^verbatim>\<open>$set\<close> calls of a highlight: \<^verbatim>\<open>stroke\<close>, then \<^verbatim>\<open>strokeWidth\<close>.\<close>

definition set_stroke :: "string option \<Rightarrow> int \<Rightarrow> gobj \<Rightarrow> gobj" where
  "set_stroke s w ob = ob\<lparr>styles := (styles ob)\<lparr>stroke := s, strokeWidth := Some w\<rparr>\<rparr>"

definition send :: "out_msg \<Rightarrow> view \<Rightarrow> view" where
  "send m v = v\<lparr>outbox := outbox v @ [m]\<rparr>"

text \<open>\<^verbatim>\<open>for (const edge of this.graph.edges)\<close>: the branch \<^verbatim>\<open>arcIds == null\<close>.\<close>

fun highlightEdges :: "string option \<Rightarrow> int \<Rightarrow> addr list \<Rightarrow> view \<Rightarrow> view \<times> error option" where
  "highlightEdges c w [] v = (v, None)"
| "highlightEdges c w (a # as) v =
     (let s = (if truthy_str c then c else stroke (styles (heap (graph v) a)))
      in case vue v of
           None \<Rightarrow> (v, Some TypeError)
         | Some _ \<Rightarrow> highlightEdges c w as (upd_obj v a (set_stroke s w)))"

text \<open>\<^verbatim>\<open>for (const arcId of event.arcIds)\<close>: reading \<^verbatim>\<open>.styles\<close> of an id that
  \<^verbatim>\<open>idMap\<close> does not hold is a \<^verbatim>\<open>TypeError\<close>.\<close>

fun highlightIds :: "string option \<Rightarrow> int \<Rightarrow> ident list \<Rightarrow> view \<Rightarrow> view \<times> error option" where
  "highlightIds c w [] v = (v, None)"
| "highlightIds c w (i # is) v =
     (case idMap (graph v) i of
        None \<Rightarrow> (v, Some TypeError)
      | Some a \<Rightarrow>
          (let s = (if truthy_str c then c else stroke (styles (heap (graph v) a)))
           in case vue v of
                None \<Rightarrow> (v, Some TypeError)
              | Some _ \<Rightarrow> highlightIds c w is (upd_obj v a (set_stroke s w))))"

definition highlightArcs :: "ident list option \<Rightarrow> string option \<Rightarrow> string \<Rightarrow> view \<Rightarrow> view \<times> error option" where
  "highlightArcs arcIds colour style v =
     (let strokeWidth = (if style = ''bold'' then 7 else 4)
      in case arcIds of
           None \<Rightarrow> highlightEdges colour strokeWidth (edge_refs (graph v)) v
         | Some ids \<Rightarrow> highlightIds colour strokeWidth ids v)"

text \<open>\<^verbatim>\<open>setDomains\<close>: the loop runs over \<^verbatim>\<open>nodeIds\<close>; \<^verbatim>\<open>domains[i]\<close> past the end of
  \<^verbatim>\<open>domains\<close> is \<^verbatim>\<open>undefined\<close>.\<close>

definition js_index :: "'a list \<Rightarrow> nat \<Rightarrow> 'a option" where
  "js_index xs i = (if i < length xs then Some (xs ! i) else None)"

fun setDomains_from :: "nat \<Rightarrow> ident list \<Rightarrow> string list list \<Rightarrow> view \<Rightarrow> view \<times> error option" where
  "setDomains_from i [] ds v = (v, None)"
| "setDomains_from i (n # ns) ds v =
     (case idMap (graph v) n of
        None \<Rightarrow> (v, Some TypeError)
      | Some a \<Rightarrow> setDomains_from (Suc i) ns ds (upd_obj v a (\<lambda>ob. ob\<lparr>domain := js_index ds i\<rparr>)))"

definition setDomains :: "ident list \<Rightarrow> string list list \<Rightarrow> view \<Rightarrow> view \<times> error option" where
  "setDomains nodeIds domains v = setDomains_from 0 nodeIds domains v"

fun highlightNodes :: "ident list \<Rightarrow> string option \<Rightarrow> view \<Rightarrow> view \<times> error option" where
  "highlightNodes [] c v = (v, None)"
| "highlightNodes (i # is) c v =
     (case vue v of
        None \<Rightarrow> (v, Some TypeError)
      | Some _ \<Rightarrow>
          (case idMap (graph v) i of
             None \<Rightarrow> (v, Some TypeError)
           | Some a \<Rightarrow> highlightNodes is c (upd_obj v a (set_stroke c 2))))"

subsection \<open>The domain-split prompt\<close>

text \<open>\<^verbatim>\<open>String.prototype.split(",")\<close> and \<^verbatim>\<open>Array.prototype.join()\<close>, on strings.\<close>

fun js_split :: "char \<Rightarrow> string \<Rightarrow> string list" where
  "js_split c [] = [[]]"
| "js_split c (x # xs) =
     (if x = c then [] # js_split c xs
      else (x # hd (js_split c xs)) # tl (js_split c xs))"

fun js_join :: "string list \<Rightarrow> string" where
  "js_join [] = []"
| "js_join [x] = x"
| "js_join (x # y # ys) = x @ CHR '','' # js_join (y # ys)"

text \<open>The answer of \<^verbatim>\<open>window.prompt\<close> is the user's text, or \<^verbatim>\<open>null\<close> on cancel.\<close>

definition newDomain :: "string option \<Rightarrow> string list option" where
  "newDomain domainString =
     (case domainString of
        None \<Rightarrow> None
      | Some s \<Rightarrow> Some (filter (\<lambda>d. d \<noteq> []) (js_split CHR '','' s)))"

definition chooseDomainSplit :: "string list \<Rightarrow> string option \<Rightarrow> view \<Rightarrow> view" where
  "chooseDomainSplit offered answer v = send (DomainSplitReply (newDomain answer)) v"

subsection \<open>The message listener and \<^verbatim>\<open>render\<close>\<close>

text \<open>The listener of \<^verbatim>\<open>view:msg\<close>; \<open>answer\<close> is what the prompt returns if it is shown.\<close>

fun on_msg :: "string option \<Rightarrow> event \<Rightarrow> view \<Rightarrow> view \<times> error option" where
  "on_msg answer (HighlightArcs arcIds colour style) v = highlightArcs arcIds colour style v"
| "on_msg answer (SetDomains nodeIds domains) v = setDomains nodeIds domains v"
| "on_msg answer (HighlightNodes nodeIds colour) v = highlightNodes nodeIds colour v"
| "on_msg answer (ChooseDomainSplit offered) v = (chooseDomainSplit offered answer v, None)"
| "on_msg answer (Output text) v =
     (case vue v of
        None \<Rightarrow> (v, Some TypeError)
      | Some d \<Rightarrow> (v\<lparr>vue := Some (d\<lparr>output_text := Some text\<rparr>)\<rparr>, None))"
| "on_msg answer Unrecognized v = (v, None)"

text \<open>The body that \<^verbatim>\<open>render\<close> schedules: mount the component, then bootstrap once.\<close>

definition render :: "view \<Rightarrow> view \<times> error option" where
  "render v =
     (let v1 = v\<lparr>vue := Some \<lparr>output_text = None\<rparr>\<rparr>
      in if \<not> previouslyRendered v1
         then highlightArcs None (Some ''blue'') ''normal'' (send InitialRender v1)
         else (v1, None))"

text \<open>
  Modelled from the spec: the code that sets \<^verbatim>\<open>previouslyRendered\<close> (the widget model
  \<^verbatim>\<open>CSPViewerModel\<close> and the controller behind it) is not among the sources. The spec's
  lifecycle of the flag is: created false, the first render sets it true, and it
  survives every later render of the same instance.
\<close>

definition render_instance :: "view \<Rightarrow> view" where
  "render_instance v = (fst (render v))\<lparr>previouslyRendered := True\<rparr>"

text \<open>
  What happens to an instance after its first render: it is rendered again, or the
  listener is given a message (with the answer of the prompt, should it be shown).
\<close>

datatype activity = Rerender | Deliver "string option" event

fun perform :: "activity \<Rightarrow> view \<Rightarrow> view" where
  "perform Rerender v = render_instance v"
| "perform (Deliver answer ev) v = fst (on_msg answer ev v)"

definition performed :: "activity list \<Rightarrow> view \<Rightarrow> view" where
  "performed acts v = fold perform acts v"

subsection \<open>A small view for the examples\<close>

text \<open>Two variable nodes \<open>n1\<close>, \<open>n2\<close> with domain \<open>[x]\<close> and one edge \<open>e1\<close>; the component is mounted.\<close>

definition obj0 :: gobj where
  "obj0 = \<lparr>styles = \<lparr>stroke = None, strokeWidth = None\<rparr>, domain = Some [''x'']\<rparr>"

definition graph0 :: graph where
  "graph0 = \<lparr>heap = (\<lambda>a. obj0), node_refs = [0, 1], edge_refs = [2],
             idMap = [''n1'' \<mapsto> 0, ''n2'' \<mapsto> 1, ''e1'' \<mapsto> 2]\<rparr>"

definition view0 :: view where
  "view0 = \<lparr>graph = graph0, vue = Some \<lparr>output_text = None\<rparr>,
            previouslyRendered = False, outbox = []\<rparr>"

section \<open>JavaScript numbers\<close>

text \<open>
  A coordinate is a JavaScript number. The model keeps what the layout code can
  observe of one beyond its value: the two infinities and \<^verbatim>\<open>NaN\<close>, which a division
  by zero produces and which the tests \<^verbatim>\<open>!node.x\<close> read. A finite number is an exact
  real: the rounding of a result to a double is not modelled, nor are overflow,
  underflow and the sign of zero (every zero is \<open>+0\<close>, which is what \<open>a - a\<close>
  yields). So nothing below says that two computed numbers are equal where the
  code rounds them differently, such as a coordinate before and after a rescaling
  that fills the same canvas. Where a theorem gives the value of a computed
  coordinate, it is the exact value, which the code rounds to a double; the
  theorem on the offsets of the tree layout also bounds the layout parameters, so
  that the code's arithmetic neither overflows nor underflows.
\<close>

datatype jsnum = Fin real | PInf | NInf | NaN

fun js_neg :: "jsnum \<Rightarrow> jsnum" where
  "js_neg (Fin a) = Fin (- a)"
| "js_neg PInf = NInf"
| "js_neg NInf = PInf"
| "js_neg NaN = NaN"

fun js_add :: "jsnum \<Rightarrow> jsnum \<Rightarrow> jsnum" where
  "js_add (Fin a) (Fin b) = Fin (a + b)"
| "js_add NaN _ = NaN"
| "js_add _ NaN = NaN"
| "js_add PInf NInf = NaN"
| "js_add NInf PInf = NaN"
| "js_add PInf _ = PInf"
| "js_add _ PInf = PInf"
| "js_add NInf _ = NInf"
| "js_add _ NInf = NInf"

definition js_sub :: "jsnum \<Rightarrow> jsnum \<Rightarrow> jsnum" where
  "js_sub a b = js_add a (js_neg b)"

text \<open>The sign of a number that is not \<^verbatim>\<open>NaN\<close>: \<open>1\<close>, \<open>0\<close> or \<open>-1\<close>.\<close>

fun js_sign :: "jsnum \<Rightarrow> int" where
  "js_sign (Fin a) = (if a = 0 then 0 else if 0 < a then 1 else -1)"
| "js_sign PInf = 1"
| "js_sign NInf = -1"
| "js_sign NaN = 0"

definition js_inf :: "int \<Rightarrow> jsnum" where
  "js_inf s = (if s = 0 then NaN else if 0 < s then PInf else NInf)"

fun js_mul :: "jsnum \<Rightarrow> jsnum \<Rightarrow> jsnum" where
  "js_mul (Fin a) (Fin b) = Fin (a * b)"
| "js_mul NaN _ = NaN"
| "js_mul _ NaN = NaN"
| "js_mul a b = js_inf (js_sign a * js_sign b)"

fun js_div :: "jsnum \<Rightarrow> jsnum \<Rightarrow> jsnum" where
  "js_div (Fin a) (Fin b) = (if b = 0 then js_inf (js_sign (Fin a)) else Fin (a / b))"
| "js_div NaN _ = NaN"
| "js_div _ NaN = NaN"
| "js_div (Fin a) _ = Fin 0"
| "js_div a (Fin b) = js_inf (js_sign a * (if b < 0 then -1 else 1))"
| "js_div _ _ = NaN"

text \<open>\<^verbatim>\<open>Math.max\<close> and \<^verbatim>\<open>Math.min\<close> of two numbers: \<^verbatim>\<open>NaN\<close> if either is.\<close>

fun js_le :: "jsnum \<Rightarrow> jsnum \<Rightarrow> bool" where
  "js_le (Fin a) (Fin b) = (a \<le> b)"
| "js_le NaN _ = False"
| "js_le _ NaN = False"
| "js_le NInf _ = True"
| "js_le _ PInf = True"
| "js_le _ _ = False"

fun js_max :: "jsnum \<Rightarrow> jsnum \<Rightarrow> jsnum" where
  "js_max NaN _ = NaN"
| "js_max _ NaN = NaN"
| "js_max a b = (if js_le a b then b else a)"

fun js_min :: "jsnum \<Rightarrow> jsnum \<Rightarrow> jsnum" where
  "js_min NaN _ = NaN"
| "js_min _ NaN = NaN"
| "js_min a b = (if js_le a b then a else b)"

text \<open>\<^verbatim>\<open>Math.sqrt\<close>.\<close>

fun js_sqrt :: "jsnum \<Rightarrow> jsnum" where
  "js_sqrt (Fin a) = (if a < 0 then NaN else Fin (sqrt a))"
| "js_sqrt PInf = PInf"
| "js_sqrt NInf = NaN"
| "js_sqrt NaN = NaN"

text \<open>
  An optional number, \<open>None\<close> for \<^verbatim>\<open>undefined\<close>. In a condition it is falsy when it
  is \<^verbatim>\<open>undefined\<close>, \<open>0\<close> or \<^verbatim>\<open>NaN\<close>; in arithmetic \<^verbatim>\<open>undefined\<close> is \<^verbatim>\<open>NaN\<close>.
\<close>

fun js_truthy :: "jsnum option \<Rightarrow> bool" where
  "js_truthy None = False"
| "js_truthy (Some (Fin a)) = (a \<noteq> 0)"
| "js_truthy (Some NaN) = False"
| "js_truthy (Some _) = True"

fun to_num :: "jsnum option \<Rightarrow> jsnum" where
  "to_num None = NaN"
| "to_num (Some a) = a"

definition MAX_SAFE_INTEGER :: jsnum where
  "MAX_SAFE_INTEGER = Fin 9007199254740991"

definition MIN_SAFE_INTEGER :: jsnum where
  "MIN_SAFE_INTEGER = Fin (- 9007199254740991)"

section \<open>The graph as the layouts see it\<close>

text \<open>
  Modelled from the spec: the interfaces \<^verbatim>\<open>IGraphNode\<close>, \<^verbatim>\<open>IGraphEdge\<close> and \<^verbatim>\<open>IGraph\<close>
  (\<^verbatim>\<open>Graph.ts\<close>) are not among the sources. The records hold the fields the layout
  functions read and write. An edge refers to its two node objects; ids are unique
  (spec, section 3), so the model names a node object by its id.
\<close>

record IGraphNode =
  node_id :: ident
  node_x :: "jsnum option"
  node_y :: "jsnum option"
  radius :: "jsnum option"

record IGraphEdge =
  edge_id :: ident
  source :: ident
  target :: ident
  edge_x1 :: "jsnum option"
  edge_x2 :: "jsnum option"
  edge_y1 :: "jsnum option"
  edge_y2 :: "jsnum option"
  styles_x1 :: "jsnum option"
  styles_x2 :: "jsnum option"
  styles_y1 :: "jsnum option"
  styles_y2 :: "jsnum option"
  overlapped :: bool

record IGraph =
  nodes :: "IGraphNode list"
  edges :: "IGraphEdge list"

record IGraphLayoutParams =
  width :: jsnum
  height :: jsnum

section \<open>Rescaling: \<^verbatim>\<open>scaleNodePositions\<close> and \<^verbatim>\<open>relativeLayout\<close>\<close>

text \<open>The test \<^verbatim>\<open>!node.x || !node.y\<close> that both loops start with.\<close>

definition skipped :: "IGraphNode \<Rightarrow> bool" where
  "skipped node = (\<not> js_truthy (node_x node) \<or> \<not> js_truthy (node_y node))"

record bounds =
  minX :: jsnum
  minY :: jsnum
  maxX :: jsnum
  maxY :: jsnum

definition initial_bounds :: bounds where
  "initial_bounds = \<lparr>minX = MAX_SAFE_INTEGER, minY = MAX_SAFE_INTEGER,
                      maxX = MIN_SAFE_INTEGER, maxY = MIN_SAFE_INTEGER\<rparr>"

text \<open>The first loop: the bounding box of the nodes that are not skipped.\<close>

fun bounding :: "IGraphNode list \<Rightarrow> bounds \<Rightarrow> bounds" where
  "bounding [] b = b"
| "bounding (node # rest) b =
     (if skipped node then bounding rest b
      else bounding rest
             \<lparr>minX = js_min (to_num (node_x node)) (minX b),
              minY = js_min (to_num (node_y node)) (minY b),
              maxX = js_max (to_num (node_x node)) (maxX b),
              maxY = js_max (to_num (node_y node)) (maxY b)\<rparr>)"

definition edgePadding_scale :: jsnum where
  "edgePadding_scale = Fin 60"

text \<open>The body of the second loop, for one node.\<close>

definition rescale :: "IGraphLayoutParams \<Rightarrow> bounds \<Rightarrow> IGraphNode \<Rightarrow> IGraphNode" where
  "rescale layoutParams b node =
     (if skipped node then node
      else node
        \<lparr>node_x := Some (js_add
            (js_div (js_mul (js_sub (width layoutParams) (js_mul edgePadding_scale (Fin 2)))
                            (js_sub (to_num (node_x node)) (minX b)))
                    (js_sub (maxX b) (minX b)))
            edgePadding_scale),
         node_y := Some (js_add
            (js_div (js_mul (js_sub (height layoutParams) (js_mul edgePadding_scale (Fin 2)))
                            (js_sub (to_num (node_y node)) (minY b)))
                    (js_sub (maxY b) (minY b)))
            edgePadding_scale)\<rparr>)"

definition scaleNodePositions :: "IGraphLayoutParams \<Rightarrow> IGraphNode list \<Rightarrow> IGraphNode list" where
  "scaleNodePositions layoutParams ns = map (rescale layoutParams (bounding ns initial_bounds)) ns"

definition relativeLayout :: "IGraph \<Rightarrow> IGraphLayoutParams \<Rightarrow> IGraph" where
  "relativeLayout g layoutParams = g\<lparr>nodes := scaleNodePositions layoutParams (nodes g)\<rparr>"

section \<open>The force layout: \<^verbatim>\<open>d3ForceLayout\<close>\<close>

text \<open>
  The simulation is d3's, a library outside the repository; the model takes it as a
  parameter. A simulation node carries the position and velocity that d3 keeps on it.
  d3 builds the simulation from a JSON copy of the graph and from the layout
  parameters; the copy is a function of the graph, so the parameter takes the graph.
  It gives the nodes as the constructor leaves them, and what the \<open>k\<close>-th call of
  \<^verbatim>\<open>tick\<close> makes of node \<open>i\<close>: a tick updates the node objects in place and neither
  adds nor removes one.
\<close>

record simnode =
  sim_x :: jsnum
  sim_y :: jsnum
  sim_vx :: jsnum
  sim_vy :: jsnum

record simulation =
  sim_nodes0 :: "nat \<Rightarrow> simnode"
  sim_tick :: "nat \<Rightarrow> simnode list \<Rightarrow> nat \<Rightarrow> simnode"

record simstate =
  ticks_done :: nat
  simnodes :: "simnode list"

definition tick :: "simulation \<Rightarrow> simstate \<Rightarrow> simstate" where
  "tick sim s =
     \<lparr>ticks_done = Suc (ticks_done s),
      simnodes = map (sim_tick sim (ticks_done s) (simnodes s)) [0..<length (simnodes s)]\<rparr>"

definition edgePadding_force :: jsnum where
  "edgePadding_force = Fin 50"

text \<open>\<^verbatim>\<open>// Bound nodes to SVG\<close>\<close>

definition bound_node :: "IGraphLayoutParams \<Rightarrow> simnode \<Rightarrow> simnode" where
  "bound_node layoutParams node =
     node\<lparr>sim_x := js_max edgePadding_force
                      (js_min (js_sub (width layoutParams) edgePadding_force) (sim_x node)),
          sim_y := js_max edgePadding_force
                      (js_min (js_sub (height layoutParams) edgePadding_force) (sim_y node))\<rparr>"

text \<open>\<^verbatim>\<open>for (let i = 0, ticksToSimulate = 300; i < ticksToSimulate; i++)\<close>\<close>

function simulate :: "simulation \<Rightarrow> IGraphLayoutParams \<Rightarrow> nat \<Rightarrow> nat \<Rightarrow> simstate \<Rightarrow> simstate" where
  "simulate sim layoutParams i ticksToSimulate s =
     (if i < ticksToSimulate
      then simulate sim layoutParams (Suc i) ticksToSimulate
             ((tick sim s)\<lparr>simnodes := map (bound_node layoutParams) (simnodes (tick sim s))\<rparr>)
      else s)"
  by pat_completeness auto
termination
  by (relation "measure (\<lambda>(sim, layoutParams, i, ticksToSimulate, s). ticksToSimulate - i)") auto

declare simulate.simps [simp del]

text \<open>The state of the simulation when the loop is left.\<close>

definition simulated :: "(IGraphLayoutParams \<Rightarrow> IGraph \<Rightarrow> simulation) \<Rightarrow> IGraph \<Rightarrow> IGraphLayoutParams \<Rightarrow> simstate" where
  "simulated forceSimulation g layoutParams =
     (let sim = forceSimulation layoutParams g
      in simulate sim layoutParams 0 300
           \<lparr>ticks_done = 0, simnodes = map (sim_nodes0 sim) [0..<length (nodes g)]\<rparr>)"

text \<open>The copy back: an axis of the graph's node is written only where it is falsy.\<close>

definition copy_over :: "IGraphNode \<Rightarrow> simnode \<Rightarrow> IGraphNode" where
  "copy_over gnode node =
     (let g1 = (if \<not> js_truthy (node_x gnode) then gnode\<lparr>node_x := Some (sim_x node)\<rparr> else gnode)
      in if \<not> js_truthy (node_y g1) then g1\<lparr>node_y := Some (sim_y node)\<rparr> else g1)"

text \<open>
  The layout: run the simulation on the copy, rescale the nodes of the graph itself,
  then copy over. Node \<open>i\<close> of the copy meets node \<open>i\<close> of the graph; the two lists
  have the same length.
\<close>

definition d3ForceLayout :: "(IGraphLayoutParams \<Rightarrow> IGraph \<Rightarrow> simulation) \<Rightarrow> IGraph \<Rightarrow> IGraphLayoutParams \<Rightarrow> IGraph" where
  "d3ForceLayout forceSimulation g layoutParams =
     (let graphCopy = simnodes (simulated forceSimulation g layoutParams);
          scaled = scaleNodePositions layoutParams (nodes g)
      in g\<lparr>nodes := map2 copy_over scaled graphCopy\<rparr>)"

subsection \<open>Inputs for the examples\<close>

definition mk_node :: "ident \<Rightarrow> jsnum option \<Rightarrow> jsnum option \<Rightarrow> IGraphNode" where
  "mk_node i x y = \<lparr>node_id = i, node_x = x, node_y = y, radius = None\<rparr>"

definition params1000 :: IGraphLayoutParams where
  "params1000 = \<lparr>width = Fin 1000, height = Fin 1000\<rparr>"

definition params60 :: IGraphLayoutParams where
  "params60 = \<lparr>width = Fin 60, height = Fin 60\<rparr>"

text \<open>
  A stand-in for d3 in the examples: node \<open>i\<close> starts at \<open>(100 (i + 1), 100 (i + 1))\<close>
  and no force moves it. What the examples show of the layout does not depend on
  where the simulation leaves a node.
\<close>

definition sim_diag :: "IGraphLayoutParams \<Rightarrow> IGraph \<Rightarrow> simulation" where
  "sim_diag layoutParams g =
     \<lparr>sim_nodes0 = (\<lambda>i. \<lparr>sim_x = Fin (100 * (real i + 1)), sim_y = Fin (100 * (real i + 1)),
                          sim_vx = Fin 0, sim_vy = Fin 0\<rparr>),
      sim_tick = (\<lambda>k ns i. ns ! i)\<rparr>"

definition two_placed :: IGraph where
  "two_placed = \<lparr>nodes = [mk_node ''a'' (Some (Fin 100)) (Some (Fin 100)),
                           mk_node ''b'' (Some (Fin 200)) (Some (Fin 200))], edges = []\<rparr>"

definition two_unplaced :: IGraph where
  "two_unplaced = \<lparr>nodes = [mk_node ''a'' None None, mk_node ''b'' None None], edges = []\<rparr>"

definition zero_x :: IGraph where
  "zero_x = \<lparr>nodes = [mk_node ''a'' (Some (Fin 100)) (Some (Fin 100)),
                       mk_node ''z'' (Some (Fin 0)) (Some (Fin 500)),
                       mk_node ''b'' (Some (Fin 200)) (Some (Fin 200))], edges = []\<rparr>"

text \<open>
  A stand-in that moves: every node starts on the diagonal as above, with the
  velocity \<open>(1000, - 1000)\<close>, and a tick adds the velocity to the position, as d3's
  does after it has applied the forces.
\<close>

definition sim_drift :: "IGraphLayoutParams \<Rightarrow> IGraph \<Rightarrow> simulation" where
  "sim_drift layoutParams g =
     \<lparr>sim_nodes0 = (\<lambda>i. \<lparr>sim_x = Fin (100 * (real i + 1)), sim_y = Fin (100 * (real i + 1)),
                          sim_vx = Fin 1000, sim_vy = Fin (- 1000)\<rparr>),
      sim_tick = (\<lambda>k ns i. (ns ! i)\<lparr>sim_x := js_add (sim_x (ns ! i)) (sim_vx (ns ! i)),
                                     sim_y := js_add (sim_y (ns ! i)) (sim_vy (ns ! i))\<rparr>)\<rparr>"

subsection \<open>Notions used in the statements and proofs\<close>

text \<open>
  The state in which the loop is entered, and one turn of the loop: the tick, then
  the bound on every node. The loop is 300 turns from the start, as shown below.
\<close>

definition start :: "simulation \<Rightarrow> IGraph \<Rightarrow> simstate" where
  "start sim g = \<lparr>ticks_done = 0, simnodes = map (sim_nodes0 sim) [0..<length (nodes g)]\<rparr>"

definition turn :: "simulation \<Rightarrow> IGraphLayoutParams \<Rightarrow> simstate \<Rightarrow> simstate" where
  "turn sim layoutParams s =
     (tick sim s)\<lparr>simnodes := map (bound_node layoutParams) (simnodes (tick sim s))\<rparr>"

text \<open>A node whose coordinates are numbers, and a node inside the padded canvas.\<close>

definition numeric :: "simnode \<Rightarrow> bool" where
  "numeric n = (sim_x n \<noteq> NaN \<and> sim_y n \<noteq> NaN)"

definition in_box :: "real \<Rightarrow> real \<Rightarrow> simnode \<Rightarrow> bool" where
  "in_box w h n = (\<exists>x y. sim_x n = Fin x \<and> sim_y n = Fin y \<and>
                     50 \<le> x \<and> x \<le> w - 50 \<and> 50 \<le> y \<and> y \<le> h - 50)"

section \<open>The tree layout: \<^verbatim>\<open>d3TreeLayout\<close>\<close>

subsection \<open>Building the hierarchy\<close>

text \<open>
  The loop over the edges fills \<^verbatim>\<open>map\<close>, from a node id to its hierarchy node, and
  \<^verbatim>\<open>nodeMapInTree\<close>, the nodes that were attached as a child. A hierarchy node is
  created once per id and its \<^verbatim>\<open>children\<close> array is shared by reference, so the model
  keeps for every id in \<^verbatim>\<open>map\<close> the ids of its children, in the order they were pushed.
\<close>

record hierarchy =
  hmap :: "ident \<rightharpoonup> ident list"
  nodeMapInTree :: "ident set"

definition children :: "(ident \<rightharpoonup> ident list) \<Rightarrow> ident \<Rightarrow> ident list" where
  "children m i = (case m i of None \<Rightarrow> [] | Some cs \<Rightarrow> cs)"

text \<open>
  Both maps are plain objects, created by \<^verbatim>\<open>{}\<close> and by an object literal, and the loop
  asks \<^verbatim>\<open>id in map\<close>. The operator \<^verbatim>\<open>in\<close> also finds what the object inherits: it is
  true of every property name of \<^verbatim>\<open>Object.prototype\<close>, the names of the language
  standard and of its annex B.
\<close>

definition Object_prototype :: "ident set" where
  "Object_prototype =
     {''constructor'', ''hasOwnProperty'', ''isPrototypeOf'', ''propertyIsEnumerable'',
      ''toLocaleString'', ''toString'', ''valueOf'', ''__proto__'',
      ''__defineGetter__'', ''__defineSetter__'', ''__lookupGetter__'', ''__lookupSetter__''}"

definition js_in :: "ident \<Rightarrow> ident set \<Rightarrow> bool" where
  "js_in i own = (i \<in> own \<or> i \<in> Object_prototype)"

text \<open>\<^verbatim>\<open>if (!(id in map)) { map[id] = data; }\<close>\<close>

definition ensure :: "ident \<Rightarrow> (ident \<rightharpoonup> ident list) \<Rightarrow> (ident \<rightharpoonup> ident list)" where
  "ensure i m = (if js_in i (dom m) then m else m(i \<mapsto> []))"

text \<open>
  One turn of \<^verbatim>\<open>for (const edge of graph.edges)\<close>. Where \<^verbatim>\<open>map\<close> has no entry of its own
  for an id, \<^verbatim>\<open>map[id]\<close> is what \<^verbatim>\<open>Object.prototype\<close> holds under that name, a value
  without \<^verbatim>\<open>children\<close>, and the call of \<^verbatim>\<open>.children.some\<close> or \<^verbatim>\<open>.children.push\<close> throws
  a \<^verbatim>\<open>TypeError\<close>. The target is looked up first, the source only when the edge is
  not skipped.
\<close>

definition attach :: "IGraphEdge \<Rightarrow> hierarchy \<Rightarrow> error + hierarchy" where
  "attach edge st =
     (let m = ensure (source edge) (ensure (target edge) (hmap st))
      in case m (target edge) of
           None \<Rightarrow> Inl TypeError
         | Some kids \<Rightarrow>
             if source edge \<in> set kids \<or> js_in (target edge) (nodeMapInTree st)
             then Inr (st\<lparr>hmap := m\<rparr>)
             else (case m (source edge) of
                     None \<Rightarrow> Inl TypeError
                   | Some cs \<Rightarrow>
                       Inr \<lparr>hmap = m(source edge \<mapsto> cs @ [target edge]),
                            nodeMapInTree = insert (target edge) (nodeMapInTree st)\<rparr>))"

fun attach_all :: "IGraphEdge list \<Rightarrow> hierarchy \<Rightarrow> error + hierarchy" where
  "attach_all [] st = Inr st"
| "attach_all (edge # es) st =
     (case attach edge st of Inl e \<Rightarrow> Inl e | Inr st' \<Rightarrow> attach_all es st')"

definition rootNode :: "ident option \<Rightarrow> IGraphNode list \<Rightarrow> IGraphNode" where
  "rootNode rootId ns =
     (case find (\<lambda>n. Some (node_id n) = rootId) ns of Some n \<Rightarrow> n | None \<Rightarrow> hd ns)"

text \<open>
  The root's entry is written with a computed key in the object literal, which makes
  it a property of \<^verbatim>\<open>map\<close> itself, whatever the root's id.
\<close>

definition build :: "ident option \<Rightarrow> IGraph \<Rightarrow> error + hierarchy" where
  "build rootId g =
     attach_all (edges g)
       \<lparr>hmap = [node_id (rootNode rootId (nodes g)) \<mapsto> []], nodeMapInTree = {}\<rparr>"

subsection \<open>What d3 does with the hierarchy\<close>

text \<open>
  \<^verbatim>\<open>d3.hierarchy(rootData)\<close> walks the \<^verbatim>\<open>children\<close> arrays from the root with a work
  stack and gives every node it meets its depth; it returns when the stack is empty,
  which it never is on a cyclic structure. The walk lists the nodes in preorder.
  \<^verbatim>\<open>root.each\<close> visits them level by level; within one level the two orders agree.
\<close>

partial_function (option) walk ::
  "(ident \<rightharpoonup> ident list) \<Rightarrow> (ident \<times> nat) list \<Rightarrow> (ident \<times> nat) list \<Rightarrow> (ident \<times> nat) list option" where
  "walk m stack acc =
     (case stack of
        [] \<Rightarrow> Some (rev acc)
      | (i, d) # rest \<Rightarrow> walk m (map (\<lambda>c. (c, Suc d)) (children m i) @ rest) ((i, d) # acc))"

definition maxDepth :: "(ident \<times> nat) list \<Rightarrow> nat" where
  "maxDepth hier = fold (\<lambda>(i, d) mx. if d > mx then d else mx) hier 0"

text \<open>
  \<^verbatim>\<open>d3.tree()\<close> with its default size gives a node of depth \<open>d\<close> the ordinate
  \<open>d / (maxDepth || 1)\<close>. The abscissa it computes is a parameter of the model.
\<close>

definition tree_y :: "(ident \<times> nat) list \<Rightarrow> nat \<Rightarrow> real" where
  "tree_y hier d = real d / real (if maxDepth hier = 0 then 1 else maxDepth hier)"

subsection \<open>Placing the nodes\<close>

definition upd_node :: "ident \<Rightarrow> (IGraphNode \<Rightarrow> IGraphNode) \<Rightarrow> IGraphNode list \<Rightarrow> IGraphNode list" where
  "upd_node i f ns = map (\<lambda>n. if node_id n = i then f n else n) ns"

definition heightDivision :: "IGraphLayoutParams \<Rightarrow> (ident \<times> nat) list \<Rightarrow> jsnum" where
  "heightDivision layoutParams hier = js_div (height layoutParams) (Fin (real (maxDepth hier + 2)))"

text \<open>The callback of \<^verbatim>\<open>root.each\<close>, for one node of the hierarchy.\<close>

definition place :: "((ident \<times> nat) list \<Rightarrow> ident \<Rightarrow> real) \<Rightarrow> IGraphLayoutParams \<Rightarrow> (ident \<times> nat) list \<Rightarrow>
    ident \<times> nat \<Rightarrow> IGraphNode list \<Rightarrow> IGraphNode list" where
  "place tree_x layoutParams hier = (\<lambda>(i, d) ns.
     upd_node i (\<lambda>n. n
       \<lparr>node_x := Some (js_mul (Fin (tree_x hier i)) (width layoutParams)),
        node_y := Some (js_add
          (js_mul (Fin (tree_y hier d))
                  (js_sub (js_sub (height layoutParams) (heightDivision layoutParams hier))
                          (heightDivision layoutParams hier)))
          (heightDivision layoutParams hier))\<rparr>) ns)"

definition sameLevelNodes :: "(ident \<times> nat) list \<Rightarrow> nat \<Rightarrow> ident list" where
  "sameLevelNodes hier k = map fst (filter (\<lambda>(i, d). d = k) hier)"

text \<open>\<^verbatim>\<open>Array.prototype.indexOf\<close>.\<close>

fun indexOf :: "'a list \<Rightarrow> 'a \<Rightarrow> int" where
  "indexOf [] a = -1"
| "indexOf (x # xs) a = (if x = a then 0 else if indexOf xs a = -1 then -1 else indexOf xs a + 1)"

fun js_lt :: "jsnum \<Rightarrow> jsnum \<Rightarrow> bool" where
  "js_lt (Fin a) (Fin b) = (a < b)"
| "js_lt NaN _ = False"
| "js_lt _ NaN = False"
| "js_lt PInf _ = False"
| "js_lt _ NInf = False"
| "js_lt _ _ = True"

text \<open>The body of \<^verbatim>\<open>sameLeveNodesList.forEach\<close>, for one level.\<close>

definition spread :: "IGraphLayoutParams \<Rightarrow> ident list \<Rightarrow> IGraphNode list \<Rightarrow> IGraphNode list" where
  "spread layoutParams level ns =
     (let newradius = js_sub (js_div (js_div (width layoutParams) (Fin (real (length level)))) (Fin 2))
                             (Fin 15)
      in if js_le newradius (Fin 0)
         then fold (\<lambda>i. upd_node i (\<lambda>n. n\<lparr>radius := Some (Fin 1)\<rparr>)) level ns
         else fold (\<lambda>i. upd_node i (\<lambda>n.
                let n1 = (if js_le (Fin 50) newradius then n\<lparr>radius := Some (Fin 50)\<rparr> else n);
                    n2 = (if js_lt newradius (Fin 50) \<and> js_lt (Fin 0) newradius
                          then n1\<lparr>radius := Some newradius\<rparr> else n1)
                in n2\<lparr>node_x := Some (js_mul (Fin (real_of_int (2 * indexOf level i + 1)))
                                             (js_add newradius (Fin 15)))\<rparr>)) level ns)"

subsection \<open>Overlapped edges\<close>

definition node_of :: "IGraphNode list \<Rightarrow> ident \<Rightarrow> IGraphNode option" where
  "node_of ns i = find (\<lambda>n. node_id n = i) ns"

definition x_of :: "IGraphNode list \<Rightarrow> ident \<Rightarrow> jsnum option" where
  "x_of ns i = (case node_of ns i of None \<Rightarrow> None | Some n \<Rightarrow> node_x n)"

definition y_of :: "IGraphNode list \<Rightarrow> ident \<Rightarrow> jsnum option" where
  "y_of ns i = (case node_of ns i of None \<Rightarrow> None | Some n \<Rightarrow> node_y n)"

text \<open>The first \<^verbatim>\<open>graph.edges.forEach\<close>: the end points, written on the edge itself.\<close>

definition set_ends :: "IGraphNode list \<Rightarrow> IGraphEdge \<Rightarrow> IGraphEdge" where
  "set_ends ns edge = edge
     \<lparr>edge_x1 := x_of ns (source edge), edge_x2 := x_of ns (target edge),
      edge_y1 := y_of ns (source edge), edge_y2 := y_of ns (target edge)\<rparr>"

text \<open>Strict equality \<^verbatim>\<open>===\<close> of two optional numbers: \<^verbatim>\<open>NaN\<close> equals nothing.\<close>

definition js_seq :: "jsnum option \<Rightarrow> jsnum option \<Rightarrow> bool" where
  "js_seq a b = (a = b \<and> a \<noteq> Some NaN)"

text \<open>
  The body of the nested \<^verbatim>\<open>forEach\<close>, for the edges at the indices \<open>i\<close> and \<open>j\<close>. The
  styles of \<^verbatim>\<open>e2\<close> are written first, those of \<^verbatim>\<open>e1\<close> after them.
\<close>

definition overlap_step :: "IGraphNode list \<Rightarrow> nat \<times> nat \<Rightarrow> IGraphEdge list \<Rightarrow> IGraphEdge list" where
  "overlap_step ns = (\<lambda>(i, j) es.
     (let e1 = es ! i; e2 = es ! j
      in if source e1 = target e2 \<and> target e1 = source e2 \<and>
            js_seq (styles_x1 e1) (styles_x2 e2) \<and> js_seq (styles_x2 e1) (styles_x1 e2)
         then
           (let xa = to_num (x_of ns (source e1)); ya = to_num (y_of ns (source e1));
                xb = to_num (x_of ns (target e1)); yb = to_num (y_of ns (target e1));
                r = Fin 5;
                len = js_sqrt (js_add (js_mul (js_sub yb ya) (js_sub yb ya))
                                      (js_mul (js_sub xb xa) (js_sub xb xa)));
                cos = js_div (js_sub yb ya) len;
                sin = js_div (js_sub xb xa) len;
                es1 = es[j := (es ! j)
                   \<lparr>styles_x1 := Some (js_add (js_mul cos r) xb),
                    styles_x2 := Some (js_add (js_mul cos r) xa),
                    styles_y1 := Some (js_sub yb (js_mul sin r)),
                    styles_y2 := Some (js_sub ya (js_mul sin r)),
                    overlapped := True\<rparr>]
            in es1[i := (es1 ! i)
                   \<lparr>styles_x1 := Some (js_sub xa (js_mul cos r)),
                    styles_x2 := Some (js_sub xb (js_mul cos r)),
                    styles_y1 := Some (js_add (js_mul sin r) ya),
                    styles_y2 := Some (js_add (js_mul sin r) yb),
                    overlapped := True\<rparr>])
         else es))"

definition overlaps :: "IGraphNode list \<Rightarrow> IGraphEdge list \<Rightarrow> IGraphEdge list" where
  "overlaps ns es = fold (overlap_step ns) (List.product [0..<length es] [0..<length es]) es"

subsection \<open>The layout\<close>

text \<open>
  The layout has three outcomes: it returns the graph with the new positions, it
  throws in the loop over the edges, or, the value \<open>None\<close>, the walk over the
  hierarchy never ends and it does not return.
\<close>

definition d3TreeLayout :: "((ident \<times> nat) list \<Rightarrow> ident \<Rightarrow> real) \<Rightarrow> ident option \<Rightarrow> IGraph \<Rightarrow> IGraphLayoutParams \<Rightarrow> (error + IGraph) option" where
  "d3TreeLayout tree_x rootId g layoutParams =
     (if nodes g = [] then Some (Inr g)
      else case build rootId g of
             Inl e \<Rightarrow> Some (Inl e)
           | Inr st \<Rightarrow>
               (case walk (hmap st) [(node_id (rootNode rootId (nodes g)), 0)] [] of
                  None \<Rightarrow> None
                | Some hier \<Rightarrow>
                    (let ns1 = fold (place tree_x layoutParams hier) hier (nodes g);
                         ns2 = fold (\<lambda>k. spread layoutParams (sameLevelNodes hier k))
                                 [0..<Suc (maxDepth hier)] ns1
                     in Some (Inr (g\<lparr>nodes := ns2,
                                     edges := overlaps ns2 (map (set_ends ns2) (edges g))\<rparr>)))))"

subsection \<open>Graphs for the examples\<close>

definition mk_edge :: "ident \<Rightarrow> ident \<Rightarrow> ident \<Rightarrow> IGraphEdge" where
  "mk_edge i s t =
     \<lparr>edge_id = i, source = s, target = t,
      edge_x1 = None, edge_x2 = None, edge_y1 = None, edge_y2 = None,
      styles_x1 = None, styles_x2 = None, styles_y1 = None, styles_y2 = None,
      overlapped = False\<rparr>"

text \<open>The two-node cycle between \<open>a\<close>, the first node, and \<open>b\<close>; the edge of \<open>a\<close> first.\<close>

definition cycle2 :: "ident \<Rightarrow> ident \<Rightarrow> IGraph" where
  "cycle2 a b = \<lparr>nodes = [mk_node a None None, mk_node b None None],
                 edges = [mk_edge ''e1'' a b, mk_edge ''e2'' b a]\<rparr>"





text \<open>The two-node cycle with the edge into the root first.\<close>

definition cycle2_rev :: IGraph where
  "cycle2_rev = \<lparr>nodes = [mk_node ''A'' None None, mk_node ''B'' None None],
                 edges = [mk_edge ''e1'' ''B'' ''A'', mk_edge ''e2'' ''A'' ''B'']\<rparr>"

text \<open>The cycle \<open>A \<rightarrow> B \<rightarrow> C \<rightarrow> A\<close> with \<open>A\<close>, the first node, as the root.\<close>

definition cycle3 :: IGraph where
  "cycle3 = \<lparr>nodes = [mk_node ''A'' None None, mk_node ''B'' None None, mk_node ''C'' None None],
             edges = [mk_edge ''e1'' ''A'' ''B'', mk_edge ''e2'' ''B'' ''C'', mk_edge ''e3'' ''C'' ''A'']\<rparr>"

text \<open>The two-node cycle between \<open>A\<close> and \<open>B\<close> inside that cycle through the root.\<close>

definition cycle2_in_cycle3 :: IGraph where
  "cycle2_in_cycle3 =
     \<lparr>nodes = [mk_node ''A'' None None, mk_node ''B'' None None, mk_node ''C'' None None],
      edges = [mk_edge ''e1'' ''A'' ''B'', mk_edge ''e2'' ''B'' ''A'',
               mk_edge ''e3'' ''B'' ''C'', mk_edge ''e4'' ''C'' ''A'']\<rparr>"

text \<open>Every breadth coordinate one half, as d3 gives a single node or a chain.\<close>

definition tree_x_mid :: "(ident \<times> nat) list \<Rightarrow> ident \<Rightarrow> real" where
  "tree_x_mid hier i = 1 / 2"

definition params2000 :: IGraphLayoutParams where
  "params2000 = \<lparr>width = Fin 2000, height = Fin 1000\<rparr>"

subsection \<open>Notions used in the statements and proofs\<close>

text \<open>
  What the two skip rules maintain: a child was entered in \<^verbatim>\<open>nodeMapInTree\<close>, no node
  is a child of two nodes or twice a child of one, and no two different nodes are
  children of each other.
\<close>

definition attached :: "hierarchy \<Rightarrow> bool" where
  "attached st =
     ((\<forall>u v. v \<in> set (children (hmap st) u) \<longrightarrow> v \<in> nodeMapInTree st) \<and>
      (\<forall>u u' v. v \<in> set (children (hmap st) u) \<and> v \<in> set (children (hmap st) u') \<longrightarrow> u = u') \<and>
      (\<forall>u v. u \<noteq> v \<and> v \<in> set (children (hmap st) u) \<longrightarrow> u \<notin> set (children (hmap st) v)) \<and>
      (\<forall>u. distinct (children (hmap st) u)) \<and>
      finite (nodeMapInTree st))"

text \<open>
  The hierarchy as the loop has built it when it reaches the edge at the index \<open>i\<close>,
  and the ids that it has entered in \<^verbatim>\<open>nodeMapInTree\<close> by then.
\<close>

definition read_until :: "nat \<Rightarrow> ident option \<Rightarrow> IGraph \<Rightarrow> error + hierarchy" where
  "read_until i rootId g =
     attach_all (take i (edges g))
       \<lparr>hmap = [node_id (rootNode rootId (nodes g)) \<mapsto> []], nodeMapInTree = {}\<rparr>"

definition in_tree_before :: "nat \<Rightarrow> ident option \<Rightarrow> IGraph \<Rightarrow> ident set" where
  "in_tree_before i rootId g =
     (case read_until i rootId g of Inl e \<Rightarrow> {} | Inr st \<Rightarrow> nodeMapInTree st)"

text \<open>The pairs of a node and one of its children in the hierarchy.\<close>

definition child_rel :: "(ident \<rightharpoonup> ident list) \<Rightarrow> (ident \<times> ident) set" where
  "child_rel m = {(u, c). c \<in> set (children m u)}"





text \<open>The two-node cycle between \<open>A\<close> and \<open>B\<close> as a layout 1000 wide and high leaves it.\<close>

definition cycle2_laid_out :: IGraph where
  "cycle2_laid_out =
     \<lparr>nodes =
        [\<lparr>node_id = ''A'', node_x = Some (Fin 500), node_y = Some (Fin (1000 / 3)), radius = Some (Fin 50)\<rparr>,
         \<lparr>node_id = ''B'', node_x = Some (Fin 500), node_y = Some (Fin (2000 / 3)), radius = Some (Fin 50)\<rparr>],
      edges =
        [\<lparr>edge_id = ''e1'', source = ''A'', target = ''B'',
          edge_x1 = Some (Fin 500), edge_x2 = Some (Fin 500),
          edge_y1 = Some (Fin (1000 / 3)), edge_y2 = Some (Fin (2000 / 3)),
          styles_x1 = Some (Fin 495), styles_x2 = Some (Fin 495),
          styles_y1 = Some (Fin (1000 / 3)), styles_y2 = Some (Fin (2000 / 3)),
          overlapped = True\<rparr>,
         \<lparr>edge_id = ''e2'', source = ''B'', target = ''A'',
          edge_x1 = Some (Fin 500), edge_x2 = Some (Fin 500),
          edge_y1 = Some (Fin (2000 / 3)), edge_y2 = Some (Fin (1000 / 3)),
          styles_x1 = Some (Fin 505), styles_x2 = Some (Fin 505),
          styles_y1 = Some (Fin (2000 / 3)), styles_y2 = Some (Fin (1000 / 3)),
          overlapped = True\<rparr>]\<rparr>"

section \<open>Properties of the event handlers\<close>

lemmas ex_defs = view0_def graph0_def obj0_def

lemma upd_obj_simps [simp]:
  "idMap (graph (upd_obj v a f)) = idMap (graph v)"
  "edge_refs (graph (upd_obj v a f)) = edge_refs (graph v)"
  "node_refs (graph (upd_obj v a f)) = node_refs (graph v)"
  "vue (upd_obj v a f) = vue v"
  "outbox (upd_obj v a f) = outbox v"
  "previouslyRendered (upd_obj v a f) = previouslyRendered v"
  "heap (graph (upd_obj v a f)) = (heap (graph v))(a := f (heap (graph v) a))"
  by (simp_all add: upd_obj_def)

subsection \<open>Setting domains\<close>

lemma setDomains_from_frame:
  "idMap (graph (fst (setDomains_from k ns ds v))) = idMap (graph v)"
  by (induction ns arbitrary: k v) (auto split: option.splits)

text \<open>An object that none of the ids names is not touched.\<close>

lemma setDomains_from_other:
  "a \<notin> (\<lambda>n. the (idMap (graph v) n)) ` set ns \<Longrightarrow>
   heap (graph (fst (setDomains_from k ns ds v))) a = heap (graph v) a"
proof (induction ns arbitrary: k v)
  case Nil
  then show ?case by simp
next
  case (Cons n ns)
  show ?case
  proof (cases "idMap (graph v) n")
    case None
    then show ?thesis by simp
  next
    case (Some b)
    let ?v = "upd_obj v b (\<lambda>ob. ob\<lparr>domain := js_index ds k\<rparr>)"
    from Cons.prems Some have ab: "a \<noteq> b" by auto
    from Cons.prems have "a \<notin> (\<lambda>n. the (idMap (graph ?v) n)) ` set ns" by auto
    from Cons.IH [OF this] Some ab show ?thesis by simp
  qed
qed

lemma setDomains_from_known:
  "\<forall>n \<in> set ns. idMap (graph v) n \<noteq> None \<Longrightarrow> snd (setDomains_from k ns ds v) = None"
  by (induction ns arbitrary: k v) (auto split: option.splits)

lemma setDomains_from_nth:
  "\<forall>n \<in> set ns. idMap (graph v) n \<noteq> None \<Longrightarrow>
   distinct (map (\<lambda>n. the (idMap (graph v) n)) ns) \<Longrightarrow> i < length ns \<Longrightarrow>
   domain (heap (graph (fst (setDomains_from k ns ds v))) (the (idMap (graph v) (ns ! i))))
     = js_index ds (k + i)"
proof (induction ns arbitrary: k v i)
  case Nil
  then show ?case by simp
next
  case (Cons n ns)
  from Cons.prems obtain b where b: "idMap (graph v) n = Some b" by auto
  let ?v = "upd_obj v b (\<lambda>ob. ob\<lparr>domain := js_index ds k\<rparr>)"
  show ?case
  proof (cases i)
    case 0
    from Cons.prems(2) b have "b \<notin> (\<lambda>n. the (idMap (graph ?v) n)) ` set ns" by auto
    from setDomains_from_other [OF this, of "Suc k" ds] b 0 show ?thesis by simp
  next
    case (Suc j)
    from Cons.prems have 1: "\<forall>n \<in> set ns. idMap (graph ?v) n \<noteq> None"
      and 2: "distinct (map (\<lambda>n. the (idMap (graph ?v) n)) ns)" and 3: "j < length ns"
      using Suc by auto
    from Cons.IH [OF 1 2 3, of "Suc k"] b Suc show ?thesis by simp
  qed
qed

text \<open>
  Claim C2, as amended. \<^verbatim>\<open>setDomains\<close> compares no lengths. When every id of
  \<^verbatim>\<open>nodeIds\<close> is in \<^verbatim>\<open>idMap\<close> and the ids name pairwise different objects, the
  handler throws nothing and the node named by \<^verbatim>\<open>nodeIds[i]\<close> ends with the domain
  \<^verbatim>\<open>domains[i]\<close>, which is \<^verbatim>\<open>undefined\<close> (\<open>None\<close>) when \<^verbatim>\<open>domains\<close> is too short.
  For arrays of equal length this is the first half of the claim; an event with arrays
  of different lengths is applied all the same.
\<close>

theorem setDomains_assigns:
  assumes "\<forall>n \<in> set nodeIds. idMap (graph v) n \<noteq> None"
    and "distinct (map (\<lambda>n. the (idMap (graph v) n)) nodeIds)"
    and "i < length nodeIds"
  shows "snd (setDomains nodeIds domains v) = None \<and>
         domain (heap (graph (fst (setDomains nodeIds domains v))) (the (idMap (graph v) (nodeIds ! i))))
           = js_index domains i"
  using setDomains_from_known [OF assms(1)] setDomains_from_nth [OF assms, of 0 domains]
  by (simp add: setDomains_def)

theorem setDomains_assigns_witness:
  "snd (setDomains [''n1'', ''n2''] [[''a'', ''b''], [''c'']] view0) = None \<and>
   domain (heap (graph (fst (setDomains [''n1'', ''n2''] [[''a'', ''b''], [''c'']] view0))) 1)
     = Some [''c'']"
  using setDomains_assigns [of "[''n1'', ''n2'']" view0 1 "[[''a'', ''b''], [''c'']]"]
  by (simp add: ex_defs js_index_def)

text \<open>
  The claim as stated fails: with two ids and one domain the event is not rejected,
  \<open>n1\<close> receives the domain and \<open>n2\<close> loses its own; and when \<open>n1\<close> is named twice
  it ends with the second domain, not with \<^verbatim>\<open>domains[0]\<close>.
\<close>

theorem setDomains_mismatch_counterexample:
  "snd (on_msg None (SetDomains [''n1'', ''n2''] [[''a'']]) view0) = None \<and>
   domain (heap (graph view0) 0) = Some [''x''] \<and>
   domain (heap (graph (fst (on_msg None (SetDomains [''n1'', ''n2''] [[''a'']]) view0))) 0) = Some [''a''] \<and>
   domain (heap (graph (fst (on_msg None (SetDomains [''n1'', ''n2''] [[''a'']]) view0))) 1) = None \<and>
   domain (heap (graph (fst (on_msg None (SetDomains [''n1'', ''n1''] [[''a''], [''b'']]) view0))) 0) = Some [''b'']"
  by (simp add: ex_defs setDomains_def js_index_def upd_obj_def)

subsection \<open>Highlighting every arc\<close>

lemma highlightEdges_heap:
  "vue v \<noteq> None \<Longrightarrow>
   snd (highlightEdges c w as v) = None \<and>
   heap (graph (fst (highlightEdges c w as v))) a
     = (if a \<in> set as
        then set_stroke (if truthy_str c then c else stroke (styles (heap (graph v) a))) w
               (heap (graph v) a)
        else heap (graph v) a)"
proof (induction as arbitrary: v)
  case Nil
  then show ?case by simp
next
  case (Cons b as)
  let ?s = "if truthy_str c then c else stroke (styles (heap (graph v) b))"
  let ?v = "upd_obj v b (set_stroke ?s w)"
  from Cons.prems have "vue ?v \<noteq> None" by simp
  from Cons.IH [OF this] Cons.prems show ?case
    by (auto simp: Let_def set_stroke_def)
qed

text \<open>
  With \<^verbatim>\<open>arcIds\<close> null and the component mounted, every edge of the graph ends with the
  stroke width 7 for the style \<open>bold\<close> and 4 otherwise, and with the event's colour as
  its stroke; an event without a colour leaves each edge its own stroke.
\<close>

theorem highlight_all_arcs:
  assumes "vue v \<noteq> None" and "a \<in> set (edge_refs (graph v))"
  shows "snd (on_msg answer (HighlightArcs None colour style) v) = None \<and>
         styles (heap (graph (fst (on_msg answer (HighlightArcs None colour style) v))) a)
           = (styles (heap (graph v) a))
               \<lparr>stroke := (if truthy_str colour then colour else stroke (styles (heap (graph v) a))),
                strokeWidth := Some (if style = ''bold'' then 7 else 4)\<rparr>"
  using highlightEdges_heap [OF assms(1), of colour "if style = ''bold'' then 7 else 4"
      "edge_refs (graph v)" a] assms(2)
  by (simp add: highlightArcs_def Let_def set_stroke_def)

theorem highlight_all_arcs_witness:
  "styles (heap (graph (fst (on_msg None (HighlightArcs None (Some ''red'') ''bold'') view0))) 2)
     = \<lparr>stroke = Some ''red'', strokeWidth = Some 7\<rparr>"
  using highlight_all_arcs [of view0 2 None "Some ''red''" "''bold''"]
  by (simp add: ex_defs truthy_str_def)

subsection \<open>Unknown ids\<close>

lemma highlightNodes_stops:
  "\<forall>i \<in> set pre. idMap (graph v) i \<noteq> None \<Longrightarrow> idMap (graph v) bad = None \<Longrightarrow>
   highlightNodes (pre @ bad # rest) c v = (fst (highlightNodes pre c v), Some TypeError)"
  by (induction pre arbitrary: v) (auto split: option.splits)

lemma highlightIds_stops:
  "\<forall>i \<in> set pre. idMap (graph v) i \<noteq> None \<Longrightarrow> idMap (graph v) bad = None \<Longrightarrow>
   highlightIds c w (pre @ bad # rest) v = (fst (highlightIds c w pre v), Some TypeError)"
  by (induction pre arbitrary: v) (auto split: option.splits simp: Let_def)

lemma setDomains_from_stops:
  "\<forall>i \<in> set pre. idMap (graph v) i \<noteq> None \<Longrightarrow> idMap (graph v) bad = None \<Longrightarrow>
   setDomains_from k (pre @ bad # rest) ds v = (fst (setDomains_from k pre ds v), Some TypeError)"
  by (induction pre arbitrary: v k) (auto split: option.splits)

text \<open>
  Claim C3, as amended. None of the three handlers looks an id up before it uses it.
  An event whose id list is \<open>pre @ bad # rest\<close>, with the ids of \<open>pre\<close> known and
  \<open>bad\<close> unknown, leaves the view exactly as the event with the id list \<open>pre\<close> would,
  and ends in a \<^verbatim>\<open>TypeError\<close>: the mutations for \<open>pre\<close> stay applied and the ids of
  \<open>rest\<close> are never reached.
\<close>

theorem unknown_id_stops_handler:
  assumes "\<forall>i \<in> set pre. idMap (graph v) i \<noteq> None" and "idMap (graph v) bad = None"
  shows "on_msg answer (HighlightArcs (Some (pre @ bad # rest)) colour style) v
           = (fst (on_msg answer (HighlightArcs (Some pre) colour style) v), Some TypeError) \<and>
         on_msg answer (HighlightNodes (pre @ bad # rest) colour) v
           = (fst (on_msg answer (HighlightNodes pre colour) v), Some TypeError) \<and>
         on_msg answer (SetDomains (pre @ bad # rest) domains) v
           = (fst (on_msg answer (SetDomains pre domains) v), Some TypeError)"
  using highlightNodes_stops [OF assms] highlightIds_stops [OF assms] setDomains_from_stops [OF assms]
  by (simp add: highlightArcs_def setDomains_def Let_def)

theorem unknown_id_stops_handler_witness:
  "on_msg None (HighlightNodes [''n1'', ''zz'', ''n2''] (Some ''red'')) view0
     = (fst (on_msg None (HighlightNodes [''n1''] (Some ''red'')) view0), Some TypeError) \<and>
   stroke (styles (heap (graph (fst (on_msg None (HighlightNodes [''n1''] (Some ''red'')) view0))) 0))
     = Some ''red''"
  using unknown_id_stops_handler [of "[''n1'']" view0 "''zz''" None "[''n2'']" "Some ''red''" "''normal''" "[]"]
  by (simp add: ex_defs upd_obj_def set_stroke_def)

text \<open>
  The claim as stated fails: \<open>zz\<close> is not in \<^verbatim>\<open>idMap\<close>, yet each of the three events
  below changes the object named before it.
\<close>

theorem unknown_id_not_dropped_counterexample:
  "idMap (graph view0) ''zz'' = None \<and>
   stroke (styles (heap (graph view0) 0)) = None \<and>
   stroke (styles (heap (graph (fst (on_msg None (HighlightNodes [''n1'', ''zz''] (Some ''red'')) view0))) 0))
     = Some ''red'' \<and>
   domain (heap (graph (fst (on_msg None (SetDomains [''n1'', ''zz''] [[''a''], [''b'']]) view0))) 0)
     = Some [''a''] \<and>
   stroke (styles (heap (graph (fst (on_msg None (HighlightArcs (Some [''e1'', ''zz'']) (Some ''red'') ''bold'') view0))) 2))
     = Some ''red''"
  by (simp add: ex_defs upd_obj_def set_stroke_def setDomains_def js_index_def highlightArcs_def
        truthy_str_def)

subsection \<open>The bootstrap\<close>

lemma highlightEdges_frame:
  "outbox (fst (highlightEdges c w as v)) = outbox v \<and>
   previouslyRendered (fst (highlightEdges c w as v)) = previouslyRendered v \<and>
   vue (fst (highlightEdges c w as v)) = vue v"
  by (induction as arbitrary: v) (auto split: option.splits simp: Let_def)

lemma render_first:
  "\<not> previouslyRendered v \<Longrightarrow> outbox (render_instance v) = outbox v @ [InitialRender]"
  by (simp add: render_instance_def render_def Let_def highlightArcs_def highlightEdges_frame send_def)

lemma render_again:
  "previouslyRendered v \<Longrightarrow>
   outbox (render_instance v) = outbox v \<and> graph (render_instance v) = graph v"
  by (simp add: render_instance_def render_def Let_def)

lemma render_instance_flag: "previouslyRendered (render_instance v)"
  by (simp add: render_instance_def)

lemma highlightIds_frame:
  "outbox (fst (highlightIds c w is v)) = outbox v \<and>
   previouslyRendered (fst (highlightIds c w is v)) = previouslyRendered v"
  by (induction "is" arbitrary: v) (auto split: option.splits simp: Let_def)

lemma setDomains_from_sent:
  "outbox (fst (setDomains_from i ns ds v)) = outbox v \<and>
   previouslyRendered (fst (setDomains_from i ns ds v)) = previouslyRendered v"
  by (induction ns arbitrary: i v) (auto split: option.splits)

lemma highlightNodes_frame:
  "outbox (fst (highlightNodes is c v)) = outbox v \<and>
   previouslyRendered (fst (highlightNodes is c v)) = previouslyRendered v"
  by (induction "is" arbitrary: v) (auto split: option.splits)

lemma on_msg_frame:
  "previouslyRendered (fst (on_msg answer ev v)) = previouslyRendered v \<and>
   count_list (outbox (fst (on_msg answer ev v))) InitialRender = count_list (outbox v) InitialRender"
  by (cases ev)
    (auto simp: highlightArcs_def Let_def highlightEdges_frame highlightIds_frame setDomains_def
       setDomains_from_sent highlightNodes_frame chooseDomainSplit_def send_def
       split: option.splits)

lemma perform_frame:
  "previouslyRendered v \<Longrightarrow>
   previouslyRendered (perform act v) \<and>
   count_list (outbox (perform act v)) InitialRender = count_list (outbox v) InitialRender"
  by (cases act) (simp_all add: render_instance_flag render_again on_msg_frame)

lemma performed_frame:
  "previouslyRendered v \<Longrightarrow>
   previouslyRendered (performed acts v) \<and>
   count_list (outbox (performed acts v)) InitialRender = count_list (outbox v) InitialRender"
  unfolding performed_def
  by (induction acts arbitrary: v) (simp_all add: perform_frame)

lemma render_bootstrap:
  "\<not> previouslyRendered v \<Longrightarrow>
   heap (graph (render_instance v)) a
     = (if a \<in> set (edge_refs (graph v)) then set_stroke (Some ''blue'') 4 (heap (graph v) a)
        else heap (graph v) a)"
  using highlightEdges_heap [of "send InitialRender (v\<lparr>vue := Some \<lparr>output_text = None\<rparr>\<rparr>)"
      "Some ''blue''" 4 "edge_refs (graph v)" a]
  by (simp add: render_instance_def render_def Let_def highlightArcs_def send_def truthy_str_def)

text \<open>
  Claim C8. Take an instance that was never rendered. Its first render sends
  \<^verbatim>\<open>initial_render\<close> and applies the bootstrap: every edge of the graph gets the
  stroke \<open>blue\<close> and the stroke width 4, and no other object is touched. Whatever
  happens afterwards, renders and messages in any number and order, one more render
  sends nothing and leaves every object of the graph as it finds it, so that a
  colour given by a message is not painted blue again; and the outbox holds one
  \<^verbatim>\<open>initial_render\<close> more than before the first render. The guard is the one of
  \<^verbatim>\<open>render\<close>; the flag's update is the modelled one.
\<close>

theorem initial_render_once:
  assumes "\<not> previouslyRendered v"
  shows "outbox (render_instance v) = outbox v @ [InitialRender] \<and>
         heap (graph (render_instance v)) a
           = (if a \<in> set (edge_refs (graph v)) then set_stroke (Some ''blue'') 4 (heap (graph v) a)
              else heap (graph v) a) \<and>
         outbox (render_instance (performed acts (render_instance v)))
           = outbox (performed acts (render_instance v)) \<and>
         graph (render_instance (performed acts (render_instance v)))
           = graph (performed acts (render_instance v)) \<and>
         count_list (outbox (performed acts (render_instance v))) InitialRender
           = Suc (count_list (outbox v) InitialRender)"
proof -
  have flag: "previouslyRendered (render_instance v)" by (rule render_instance_flag)
  from performed_frame [OF flag, of acts]
  have later: "previouslyRendered (performed acts (render_instance v))"
    and sent: "count_list (outbox (performed acts (render_instance v))) InitialRender
                 = count_list (outbox (render_instance v)) InitialRender"
    by simp_all
  from render_again [OF later] render_first [OF assms] render_bootstrap [OF assms, of a] sent
  show ?thesis by simp
qed

theorem initial_render_once_witness:
  "\<not> previouslyRendered view0 \<and>
   styles (heap (graph (render_instance view0)) 2) = \<lparr>stroke = Some ''blue'', strokeWidth = Some 4\<rparr> \<and>
   styles (heap (graph (render_instance
      (performed [Deliver None (HighlightArcs None (Some ''red'') ''bold''), Rerender]
         (render_instance view0)))) 2) = \<lparr>stroke = Some ''red'', strokeWidth = Some 7\<rparr> \<and>
   outbox (render_instance
      (performed [Deliver None (HighlightArcs None (Some ''red'') ''bold''), Rerender]
         (render_instance view0))) = [InitialRender]"
  using initial_render_once [of view0 2
      "[Deliver None (HighlightArcs None (Some ''red'') ''bold''), Rerender]"]
  by (simp add: ex_defs performed_def render_instance_def render_def highlightArcs_def upd_obj_def
        set_stroke_def truthy_str_def send_def)

subsection \<open>The reply to a domain split\<close>

lemma js_split_plain: "c \<notin> set x \<Longrightarrow> js_split c x = [x]"
  by (induction x) auto

lemma js_split_sep: "c \<notin> set x \<Longrightarrow> js_split c (x @ c # r) = x # js_split c r"
  by (induction x) auto

lemma js_split_join:
  "\<forall>x \<in> set xs. c \<notin> set x \<Longrightarrow> xs \<noteq> [] \<Longrightarrow> c = CHR '','' \<Longrightarrow> js_split c (js_join xs) = xs"
  by (induction xs rule: js_join.induct) (auto simp: js_split_plain js_split_sep)

text \<open>
  Claim C9, as amended. A \<^verbatim>\<open>ChooseDomainSplit\<close> event sends exactly one reply. Its
  domain is \<^verbatim>\<open>null\<close> when the user cancels; otherwise it is the list of the non-empty
  comma-separated pieces of the text the user entered, whether or not they belong to
  the offered domain. When the text is the comma-joined list \<open>xs\<close> of values that are
  non-empty and hold no comma, the reply's domain is \<open>xs\<close>.
\<close>

theorem domain_split_reply:
  "outbox (fst (on_msg answer (ChooseDomainSplit offered) v))
     = outbox v @ [DomainSplitReply (newDomain answer)] \<and>
   newDomain None = None \<and>
   newDomain (Some s) = Some (filter (\<lambda>d. d \<noteq> []) (js_split CHR '','' s)) \<and>
   ((\<forall>x \<in> set xs. x \<noteq> [] \<and> CHR '','' \<notin> set x) \<longrightarrow> newDomain (Some (js_join xs)) = Some xs)"
proof -
  have "newDomain (Some (js_join xs)) = Some xs" if h: "\<forall>x \<in> set xs. x \<noteq> [] \<and> CHR '','' \<notin> set x"
  proof (cases "xs = []")
    case True
    then show ?thesis by (simp add: newDomain_def)
  next
    case False
    from h have "\<forall>x \<in> set xs. CHR '','' \<notin> set x" by blast
    from js_split_join [OF this False] h show ?thesis
      by (simp add: newDomain_def filter_id_conv)
  qed
  then show ?thesis
    by (simp add: chooseDomainSplit_def send_def newDomain_def)
qed

theorem domain_split_reply_witness:
  "outbox (fst (on_msg (Some ''a,c'') (ChooseDomainSplit [''a'', ''b'', ''c'']) view0))
     = [DomainSplitReply (Some [''a'', ''c''])] \<and>
   outbox (fst (on_msg None (ChooseDomainSplit [''a'', ''b'', ''c'']) view0)) = [DomainSplitReply None]"
  using domain_split_reply [of "Some ''a,c''" "[''a'', ''b'', ''c'']" view0 "''a,c''" "[''a'', ''c'']"]
        domain_split_reply [of None "[''a'', ''b'', ''c'']" view0 "''a,c''" "[''a'', ''c'']"]
  by (simp add: ex_defs)

text \<open>
  The claim as stated fails: the reply to an offer of \<open>[a, b]\<close> answered with \<open>z\<close> is
  \<open>[z]\<close>; and when the single offered value \<open>a,b\<close> is accepted as it stands, the reply
  is \<open>[a, b]\<close>. Neither is a subset of the offered domain.
\<close>

theorem domain_split_not_subset_counterexample:
  "outbox (fst (on_msg (Some ''z'') (ChooseDomainSplit [''a'', ''b'']) view0))
     = [DomainSplitReply (Some [''z''])] \<and>
   \<not> set [''z''] \<subseteq> set [''a'', ''b''] \<and>
   outbox (fst (on_msg (Some (js_join [''a,b''])) (ChooseDomainSplit [''a,b'']) view0))
     = [DomainSplitReply (Some [''a'', ''b''])] \<and>
   \<not> set [''a'', ''b''] \<subseteq> set [''a,b'']"
  by (simp add: ex_defs chooseDomainSplit_def send_def newDomain_def)

section \<open>Properties of the rescaling and of the force layout\<close>

lemmas num_defs = MAX_SAFE_INTEGER_def MIN_SAFE_INTEGER_def edgePadding_scale_def
  edgePadding_force_def js_sub_def js_inf_def initial_bounds_def

lemmas layout_ex_defs = mk_node_def params1000_def params60_def sim_diag_def

lemma length_scaleNodePositions [simp]: "length (scaleNodePositions p ns) = length ns"
  by (simp add: scaleNodePositions_def)

lemma rescale_skipped [simp]: "skipped n \<Longrightarrow> rescale p b n = n"
  by (simp add: rescale_def)

lemma simulate_length:
  "length (simnodes (simulate sim p i n s)) = length (simnodes s)"
proof (induction sim p i n s rule: simulate.induct)
  case (1 sim p i n s)
  show ?case
  proof (cases "i < n")
    case True
    with 1 show ?thesis by (subst simulate.simps) (simp add: tick_def)
  next
    case False
    then show ?thesis by (subst simulate.simps) simp
  qed
qed

lemma simulate_ticks:
  "ticks_done (simulate sim p i n s) = ticks_done s + (n - i)"
proof (induction sim p i n s rule: simulate.induct)
  case (1 sim p i n s)
  show ?case
  proof (cases "i < n")
    case True
    with 1 show ?thesis by (subst simulate.simps) (simp add: tick_def)
  next
    case False
    then show ?thesis by (subst simulate.simps) simp
  qed
qed

lemma length_simulated [simp]:
  "length (simnodes (simulated fs g p)) = length (nodes g)"
  by (simp add: simulated_def Let_def simulate_length)

lemma length_d3ForceLayout [simp]:
  "length (nodes (d3ForceLayout fs g p)) = length (nodes g)"
  by (simp add: d3ForceLayout_def Let_def)

lemma nth_d3ForceLayout:
  "i < length (nodes g) \<Longrightarrow>
   nodes (d3ForceLayout fs g p) ! i
     = copy_over (scaleNodePositions p (nodes g) ! i) (simnodes (simulated fs g p) ! i)"
  by (simp add: d3ForceLayout_def Let_def)

lemma copy_over_x:
  "node_x (copy_over n s) = (if js_truthy (node_x n) then node_x n else Some (sim_x s))"
  by (simp add: copy_over_def Let_def)

lemma copy_over_y:
  "node_y (copy_over n s) = (if js_truthy (node_y n) then node_y n else Some (sim_y s))"
  by (simp add: copy_over_def Let_def)

subsection \<open>The simulation loop\<close>

lemma simulate_still:
  "sim_tick sim = (\<lambda>k ns i. ns ! i) \<Longrightarrow> map (bound_node p) (simnodes s) = simnodes s \<Longrightarrow>
   simnodes (simulate sim p i n s) = simnodes s"
proof (induction sim p i n s rule: simulate.induct)
  case (1 sim p i n s)
  show ?case
  proof (cases "i < n")
    case True
    have t: "simnodes (tick sim s) = simnodes s"
      using "1.prems"(1) by (simp add: tick_def map_nth)
    let ?s = "(tick sim s)\<lparr>simnodes := map (bound_node p) (simnodes (tick sim s))\<rparr>"
    have s': "simnodes ?s = simnodes s" using t "1.prems"(2) by simp
    have "simnodes (simulate sim p (Suc i) n ?s) = simnodes ?s"
      using "1.IH" [OF True "1.prems"(1)] s' "1.prems"(2) by simp
    with True s' show ?thesis by (subst simulate.simps) simp
  next
    case False
    then show ?thesis by (subst simulate.simps) simp
  qed
qed

lemma clamp_fin:
  "v \<noteq> NaN \<Longrightarrow> 100 \<le> w \<Longrightarrow>
   \<exists>x. js_max (Fin 50) (js_min (Fin (w - 50)) v) = Fin x \<and> 50 \<le> x \<and> x \<le> w - 50"
  by (cases v) auto

lemma bound_node_in_box:
  assumes "width p = Fin w" "height p = Fin h" "100 \<le> w" "100 \<le> h"
    and "sim_x n \<noteq> NaN" "sim_y n \<noteq> NaN"
  shows "in_box w h (bound_node p n)"
  using clamp_fin [OF assms(5) assms(3)] clamp_fin [OF assms(6) assms(4)] assms(1,2)
  by (auto simp: in_box_def bound_node_def num_defs)

lemma in_box_numeric: "in_box w h n \<Longrightarrow> numeric n"
  by (auto simp: in_box_def numeric_def)

lemma simulate_turns: "simulate sim p i n s = (turn sim p ^^ (n - i)) s"
proof (induction sim p i n s rule: simulate.induct)
  case (1 sim p i n s)
  show ?case
  proof (cases "i < n")
    case True
    then have n: "n - i = Suc (n - Suc i)" by simp
    have "simulate sim p i n s = simulate sim p (Suc i) n (turn sim p s)"
      using True by (subst simulate.simps) (simp add: turn_def)
    also have "\<dots> = (turn sim p ^^ (n - Suc i)) (turn sim p s)"
      using "1.IH" [OF True] unfolding turn_def [symmetric] .
    finally show ?thesis unfolding n by (simp only: funpow_Suc_right o_apply)
  next
    case False
    then show ?thesis by (subst simulate.simps) simp
  qed
qed

lemma simulated_turns:
  "simulated fs g p = (turn (fs p g) p ^^ 300) (start (fs p g) g)"
  by (simp add: simulated_def Let_def simulate_turns start_def)

lemma turn_in_box:
  assumes "width p = Fin w" "height p = Fin h" "100 \<le> w" "100 \<le> h"
    and "\<forall>m \<in> set (simnodes (tick sim s)). numeric m"
  shows "\<forall>m \<in> set (simnodes (turn sim p s)). in_box w h m"
  using assms by (auto simp: turn_def numeric_def intro!: bound_node_in_box)

lemma scale_unplaced:
  "\<forall>n \<in> set ns. node_x n = None \<and> node_y n = None \<Longrightarrow> scaleNodePositions p ns = ns"
  by (simp add: scaleNodePositions_def skipped_def map_idI)

lemma sim_diag_fixed:
  assumes "length (nodes g) \<le> 9"
  shows "simnodes (simulated sim_diag g params1000)
           = map (\<lambda>i. \<lparr>sim_x = Fin (100 * (real i + 1)), sim_y = Fin (100 * (real i + 1)),
                         sim_vx = Fin 0, sim_vy = Fin 0\<rparr>) [0..<length (nodes g)]"
proof -
  have "map (bound_node params1000)
          (map (\<lambda>i. \<lparr>sim_x = Fin (100 * (real i + 1)), sim_y = Fin (100 * (real i + 1)),
                       sim_vx = Fin 0, sim_vy = Fin 0\<rparr>) [0..<length (nodes g)])
        = map (\<lambda>i. \<lparr>sim_x = Fin (100 * (real i + 1)), sim_y = Fin (100 * (real i + 1)),
                       sim_vx = Fin 0, sim_vy = Fin 0\<rparr>) [0..<length (nodes g)]"
    using assms by (auto simp: bound_node_def params1000_def num_defs)
  then show ?thesis
    unfolding simulated_def Let_def
    by (subst simulate_still) (simp_all add: sim_diag_def)
qed

lemma force_diag_1000:
  "nodes (d3ForceLayout sim_diag two_unplaced params1000)
     = [mk_node ''a'' (Some (Fin 100)) (Some (Fin 100)), mk_node ''b'' (Some (Fin 200)) (Some (Fin 200))]"
proof -
  have "length (nodes two_unplaced) \<le> 9" by (simp add: two_unplaced_def)
  from sim_diag_fixed [OF this] show ?thesis
    by (simp add: d3ForceLayout_def Let_def two_unplaced_def scaleNodePositions_def skipped_def
          mk_node_def copy_over_def upt_rec)
qed

subsection \<open>What the force layout writes\<close>

text \<open>
  Claim C1, as amended. The layout rescales the nodes of the graph before it copies
  the simulated positions over. Node \<open>i\<close> ends with the simulated \<open>x\<close> exactly when
  its \<open>x\<close> is falsy (absent, \<open>0\<close> or \<^verbatim>\<open>NaN\<close>) after the rescaling, and with its
  rescaled \<open>x\<close> otherwise; likewise for \<open>y\<close>. A node that had a position is thus not
  given a simulated one, but it is moved by the rescaling.
\<close>

theorem force_layout_merge:
  assumes "i < length (nodes g)"
  shows "node_x (nodes (d3ForceLayout fs g p) ! i)
           = (if js_truthy (node_x (scaleNodePositions p (nodes g) ! i))
              then node_x (scaleNodePositions p (nodes g) ! i)
              else Some (sim_x (simnodes (simulated fs g p) ! i))) \<and>
         node_y (nodes (d3ForceLayout fs g p) ! i)
           = (if js_truthy (node_y (scaleNodePositions p (nodes g) ! i))
              then node_y (scaleNodePositions p (nodes g) ! i)
              else Some (sim_y (simnodes (simulated fs g p) ! i)))"
  using assms by (simp add: nth_d3ForceLayout copy_over_x copy_over_y)

theorem force_layout_merge_witness:
  "node_x (nodes (d3ForceLayout sim_diag zero_x params1000) ! 0) = Some (Fin 60) \<and>
   node_x (nodes (d3ForceLayout sim_diag zero_x params1000) ! 1) = Some (Fin 200) \<and>
   node_y (nodes (d3ForceLayout sim_diag zero_x params1000) ! 1) = Some (Fin 500)"
proof -
  have len: "length (nodes zero_x) \<le> 9" by (simp add: zero_x_def)
  have sc: "scaleNodePositions params1000 (nodes zero_x)
     = [mk_node ''a'' (Some (Fin 60)) (Some (Fin 60)),
        mk_node ''z'' (Some (Fin 0)) (Some (Fin 500)),
        mk_node ''b'' (Some (Fin 940)) (Some (Fin 940))]"
    by (simp add: zero_x_def scaleNodePositions_def rescale_def skipped_def layout_ex_defs num_defs)
  have l3: "length (nodes zero_x) = 3" by (simp add: zero_x_def)
  from force_layout_merge [of 0 zero_x sim_diag params1000]
       force_layout_merge [of 1 zero_x sim_diag params1000]
  show ?thesis
    by (simp add: sim_diag_fixed [OF len] sc l3 mk_node_def)
qed

text \<open>
  The claim as stated fails: two nodes placed at \<open>(100, 100)\<close> and \<open>(200, 200)\<close> end
  at \<open>(60, 60)\<close> and \<open>(940, 940)\<close> on a canvas of 1000 by 1000.
\<close>

lemma scale_two:
  "scaleNodePositions params1000 (nodes two_placed)
     = [mk_node ''a'' (Some (Fin 60)) (Some (Fin 60)), mk_node ''b'' (Some (Fin 940)) (Some (Fin 940))]"
  by (simp add: two_placed_def scaleNodePositions_def rescale_def skipped_def layout_ex_defs num_defs)

theorem force_layout_moves_placed_counterexample:
  "nodes (d3ForceLayout sim_diag two_placed params1000)
     = [mk_node ''a'' (Some (Fin 60)) (Some (Fin 60)), mk_node ''b'' (Some (Fin 940)) (Some (Fin 940))]"
  by (simp add: d3ForceLayout_def Let_def scale_two)
    (simp add: two_placed_def layout_ex_defs copy_over_def list_eq_iff_nth_eq  nth_Cons' )

lemma turn_drift:
  "simnodes s = [\<lparr>sim_x = Fin 950, sim_y = Fin 50, sim_vx = Fin 1000, sim_vy = Fin (- 1000)\<rparr>,
                 \<lparr>sim_x = Fin 950, sim_y = Fin 50, sim_vx = Fin 1000, sim_vy = Fin (- 1000)\<rparr>] \<Longrightarrow>
   simnodes (turn (sim_drift p g) params1000 s) = simnodes s"
  by (simp add: turn_def tick_def sim_drift_def bound_node_def params1000_def num_defs upt_rec)

lemma turns_drift:
  "simnodes ((turn (sim_drift p g) params1000 ^^ Suc k) (start (sim_drift p g) two_unplaced))
     = [\<lparr>sim_x = Fin 950, sim_y = Fin 50, sim_vx = Fin 1000, sim_vy = Fin (- 1000)\<rparr>,
        \<lparr>sim_x = Fin 950, sim_y = Fin 50, sim_vx = Fin 1000, sim_vy = Fin (- 1000)\<rparr>]"
proof (induction k)
  case 0
  show ?case
    by (simp add: turn_def tick_def start_def sim_drift_def bound_node_def params1000_def
          two_unplaced_def num_defs upt_rec)
next
  case (Suc k)
  from turn_drift [OF Suc, where p = p and g = g] Suc show ?case by simp
qed

text \<open>
  Claim C6, as amended. Take a graph whose nodes have no position, a width and a
  height of at least 100, and a run in which no call of \<^verbatim>\<open>tick\<close> leaves \<^verbatim>\<open>NaN\<close> as a
  coordinate. The loop is exactly 300 turns, each of them one call of \<^verbatim>\<open>tick\<close>
  followed by the bound on every node, so that the next tick works on the bounded
  positions. After every turn, the last one included, every node of the simulation
  has \<open>50 \<le> x \<le> width - 50\<close> and \<open>50 \<le> y \<le> height - 50\<close>, and the nodes of the graph
  end at the positions that the last turn leaves.
\<close>

theorem force_layout_bounds:
  assumes "width p = Fin w" and "height p = Fin h" and "100 \<le> w" and "100 \<le> h"
    and "\<forall>n \<in> set (nodes g). node_x n = None \<and> node_y n = None"
    and "\<forall>k < 300. \<forall>m \<in> set (simnodes (tick (fs p g) ((turn (fs p g) p ^^ k) (start (fs p g) g)))).
           numeric m"
  shows "simulated fs g p = (turn (fs p g) p ^^ 300) (start (fs p g) g) \<and>
         ticks_done (simulated fs g p) = 300 \<and>
         (\<forall>k. 0 < k \<and> k \<le> 300 \<longrightarrow>
            (\<forall>m \<in> set (simnodes ((turn (fs p g) p ^^ k) (start (fs p g) g))). in_box w h m)) \<and>
         map node_x (nodes (d3ForceLayout fs g p))
           = map (\<lambda>m. Some (sim_x m)) (simnodes (simulated fs g p)) \<and>
         map node_y (nodes (d3ForceLayout fs g p))
           = map (\<lambda>m. Some (sim_y m)) (simnodes (simulated fs g p)) \<and>
         (\<forall>n \<in> set (nodes (d3ForceLayout fs g p)).
            \<exists>x y. node_x n = Some (Fin x) \<and> node_y n = Some (Fin y) \<and>
                  50 \<le> x \<and> x \<le> w - 50 \<and> 50 \<le> y \<and> y \<le> h - 50)"
proof -
  let ?s = "\<lambda>k. (turn (fs p g) p ^^ k) (start (fs p g) g)"
  have ticks: "ticks_done (simulated fs g p) = 300"
    by (simp add: simulated_def Let_def simulate_ticks)
  have each: "\<forall>m \<in> set (simnodes (?s k)). in_box w h m" if k: "0 < k \<and> k \<le> 300" for k
  proof -
    from k obtain j where j: "k = Suc j" "j < 300" by (cases k) auto
    from assms(6) j(2) have "\<forall>m \<in> set (simnodes (tick (fs p g) (?s j))). numeric m" by blast
    from turn_in_box [OF assms(1,2,3,4) this] show ?thesis unfolding j(1) by simp
  qed
  from each [of 300] have box: "\<forall>m \<in> set (simnodes (simulated fs g p)). in_box w h m"
    by (simp add: simulated_turns)
  have pos: "node_x (nodes (d3ForceLayout fs g p) ! i) = Some (sim_x (simnodes (simulated fs g p) ! i)) \<and>
             node_y (nodes (d3ForceLayout fs g p) ! i) = Some (sim_y (simnodes (simulated fs g p) ! i))"
    if i: "i < length (nodes g)" for i
  proof -
    from i assms(5) have "node_x (nodes g ! i) = None \<and> node_y (nodes g ! i) = None" by simp
    with i show ?thesis
      by (simp add: nth_d3ForceLayout scale_unplaced [OF assms(5)] copy_over_x copy_over_y)
  qed
  have xs: "map node_x (nodes (d3ForceLayout fs g p))
              = map (\<lambda>m. Some (sim_x m)) (simnodes (simulated fs g p))"
    and ys: "map node_y (nodes (d3ForceLayout fs g p))
              = map (\<lambda>m. Some (sim_y m)) (simnodes (simulated fs g p))"
    using pos by (simp_all add: list_eq_iff_nth_eq)
  have "\<exists>x y. node_x n = Some (Fin x) \<and> node_y n = Some (Fin y) \<and>
                  50 \<le> x \<and> x \<le> w - 50 \<and> 50 \<le> y \<and> y \<le> h - 50"
    if n: "n \<in> set (nodes (d3ForceLayout fs g p))" for n
  proof -
    from n obtain i where i: "i < length (nodes g)" and ni: "n = nodes (d3ForceLayout fs g p) ! i"
      by (auto simp: in_set_conv_nth)
    from i box have "in_box w h (simnodes (simulated fs g p) ! i)" by simp
    with pos [OF i] ni show ?thesis by (auto simp: in_box_def)
  qed
  with ticks each xs ys simulated_turns [of fs g p] show ?thesis by blast
qed

theorem force_layout_bounds_witness:
  "simnodes (tick (sim_drift params1000 two_unplaced) (start (sim_drift params1000 two_unplaced) two_unplaced))
     = [\<lparr>sim_x = Fin 1100, sim_y = Fin (- 900), sim_vx = Fin 1000, sim_vy = Fin (- 1000)\<rparr>,
        \<lparr>sim_x = Fin 1200, sim_y = Fin (- 800), sim_vx = Fin 1000, sim_vy = Fin (- 1000)\<rparr>] \<and>
   ticks_done (simulated sim_drift two_unplaced params1000) = 300 \<and>
   map node_x (nodes (d3ForceLayout sim_drift two_unplaced params1000)) = [Some (Fin 950), Some (Fin 950)] \<and>
   map node_y (nodes (d3ForceLayout sim_drift two_unplaced params1000)) = [Some (Fin 50), Some (Fin 50)]"
proof -
  let ?sim = "sim_drift params1000 two_unplaced"
  have first: "simnodes (tick ?sim (start ?sim two_unplaced))
     = [\<lparr>sim_x = Fin 1100, sim_y = Fin (- 900), sim_vx = Fin 1000, sim_vy = Fin (- 1000)\<rparr>,
        \<lparr>sim_x = Fin 1200, sim_y = Fin (- 800), sim_vx = Fin 1000, sim_vy = Fin (- 1000)\<rparr>]"
    by (simp add: tick_def start_def sim_drift_def two_unplaced_def upt_rec)
  have later: "simnodes (tick ?sim ((turn ?sim params1000 ^^ Suc k) (start ?sim two_unplaced)))
     = [\<lparr>sim_x = Fin 1950, sim_y = Fin (- 950), sim_vx = Fin 1000, sim_vy = Fin (- 1000)\<rparr>,
        \<lparr>sim_x = Fin 1950, sim_y = Fin (- 950), sim_vx = Fin 1000, sim_vy = Fin (- 1000)\<rparr>]" for k
    using turns_drift [where p = params1000 and g = two_unplaced and k = k]
    by (simp add: tick_def sim_drift_def upt_rec)
  have num: "\<forall>k < 300. \<forall>m \<in> set (simnodes (tick ?sim ((turn ?sim params1000 ^^ k) (start ?sim two_unplaced)))).
               numeric m"
  proof (intro allI impI)
    fix k :: nat
    show "\<forall>m \<in> set (simnodes (tick ?sim ((turn ?sim params1000 ^^ k) (start ?sim two_unplaced)))). numeric m"
    proof (cases k)
      case 0
      with first show ?thesis by (simp add: numeric_def)
    next
      case (Suc j)
      with later [of j] show ?thesis by (simp add: numeric_def)
    qed
  qed
  have un: "\<forall>n \<in> set (nodes two_unplaced). node_x n = None \<and> node_y n = None"
    by (simp add: two_unplaced_def mk_node_def)
  have p: "width params1000 = Fin 1000" "height params1000 = Fin 1000"
    by (simp_all add: params1000_def)
  have big: "100 \<le> (1000::real)" by simp
  note bounds = force_layout_bounds [where fs = sim_drift and g = two_unplaced and p = params1000,
      OF p big big un num]
  from bounds have "ticks_done (simulated sim_drift two_unplaced params1000) = 300"
    by (elim conjE)
  moreover from bounds have "simulated sim_drift two_unplaced params1000
           = (turn ?sim params1000 ^^ 300) (start ?sim two_unplaced)"
    by (elim conjE)
  moreover from bounds have "map node_x (nodes (d3ForceLayout sim_drift two_unplaced params1000))
           = map (\<lambda>m. Some (sim_x m)) (simnodes (simulated sim_drift two_unplaced params1000))"
    by (elim conjE)
  moreover from bounds have "map node_y (nodes (d3ForceLayout sim_drift two_unplaced params1000))
           = map (\<lambda>m. Some (sim_y m)) (simnodes (simulated sim_drift two_unplaced params1000))"
    by (elim conjE)
  ultimately have "ticks_done (simulated sim_drift two_unplaced params1000) = 300 \<and>
      map node_x (nodes (d3ForceLayout sim_drift two_unplaced params1000))
        = map (\<lambda>m. Some (sim_x m)) (simnodes ((turn ?sim params1000 ^^ 300) (start ?sim two_unplaced))) \<and>
      map node_y (nodes (d3ForceLayout sim_drift two_unplaced params1000))
        = map (\<lambda>m. Some (sim_y m)) (simnodes ((turn ?sim params1000 ^^ 300) (start ?sim two_unplaced)))"
    by simp
  with turns_drift [where p = params1000 and g = two_unplaced and k = 299] first show ?thesis
    by (simp add: eval_nat_numeral)
qed

text \<open>
  The claim as stated fails: on a canvas 60 wide the clamp leaves \<open>x = 50\<close>, which is
  more than \<open>width - 50 = 10\<close>.
\<close>

theorem force_layout_narrow_counterexample:
  "width params60 = Fin 60 \<and>
   node_x (nodes (d3ForceLayout sim_diag two_unplaced params60) ! 0) = Some (Fin 50) \<and>
   \<not> (50::real) \<le> 60 - 50"
proof -
  let ?c = "\<lparr>sim_x = Fin 50, sim_y = Fin 50, sim_vx = Fin 0, sim_vy = Fin 0\<rparr>"
  have "simnodes (simulated sim_diag two_unplaced params60) = [?c, ?c]"
    unfolding simulated_def Let_def
    by (subst simulate.simps, simp, subst simulate_still)
      (simp_all add: sim_diag_def two_unplaced_def params60_def bound_node_def num_defs upt_rec tick_def)
  then show ?thesis
    by (simp add: d3ForceLayout_def Let_def two_unplaced_def scaleNodePositions_def skipped_def
          mk_node_def copy_over_def params60_def)
qed

subsection \<open>Zero coordinates\<close>

lemma bounding_append: "bounding (xs @ ys) b = bounding ys (bounding xs b)"
  by (induction xs arbitrary: b) auto

lemma bounding_skip: "skipped n \<Longrightarrow> bounding (xs @ n # ys) b = bounding (xs @ ys) b"
  by (simp add: bounding_append)

lemma zero_skipped: "node_x n = Some (Fin 0) \<or> node_y n = Some (Fin 0) \<Longrightarrow> skipped n"
  by (auto simp: skipped_def)

lemma scale_skip:
  assumes "skipped n"
  shows "scaleNodePositions p (xs @ n # ys)
           = take (length xs) (scaleNodePositions p (xs @ ys)) @ n #
             drop (length xs) (scaleNodePositions p (xs @ ys))"
  using assms by (simp add: scaleNodePositions_def bounding_skip)

text \<open>
  Claim C10. A node whose \<open>x\<close> or \<open>y\<close> is \<open>0\<close> is skipped by the rescaling: the result
  for the other nodes is the one computed without it, and the node itself is left as
  it is. In the force layout the copy back then overwrites each axis of the node that
  is \<open>0\<close> with the simulated value.
\<close>

theorem zero_is_unpositioned:
  assumes "node_x n = Some (Fin 0) \<or> node_y n = Some (Fin 0)" and "nodes g = xs @ n # ys"
  shows "scaleNodePositions p (nodes g)
           = take (length xs) (scaleNodePositions p (xs @ ys)) @ n #
             drop (length xs) (scaleNodePositions p (xs @ ys)) \<and>
         (node_x n = Some (Fin 0) \<longrightarrow>
            node_x (nodes (d3ForceLayout fs g p) ! length xs)
              = Some (sim_x (simnodes (simulated fs g p) ! length xs))) \<and>
         (node_y n = Some (Fin 0) \<longrightarrow>
            node_y (nodes (d3ForceLayout fs g p) ! length xs)
              = Some (sim_y (simnodes (simulated fs g p) ! length xs)))"
proof -
  from assms(1) have sk: "skipped n" by (rule zero_skipped)
  have at: "scaleNodePositions p (nodes g) ! length xs = n"
    using sk assms(2) by (simp add: scale_skip nth_append)
  have len: "length xs < length (nodes g)" using assms(2) by simp
  show ?thesis
    using scale_skip [OF sk, of p xs ys] assms(2) at
    by (simp add: nth_d3ForceLayout [OF len] copy_over_x copy_over_y)
qed

theorem zero_is_unpositioned_witness:
  "scaleNodePositions params1000 (nodes zero_x)
     = [mk_node ''a'' (Some (Fin 60)) (Some (Fin 60)),
        mk_node ''z'' (Some (Fin 0)) (Some (Fin 500)),
        mk_node ''b'' (Some (Fin 940)) (Some (Fin 940))] \<and>
   node_x (nodes (d3ForceLayout sim_diag zero_x params1000) ! 1)
     = Some (sim_x (simnodes (simulated sim_diag zero_x params1000) ! 1)) \<and>
   node_y (nodes (d3ForceLayout sim_diag zero_x params1000) ! 1) = Some (Fin 500)"
proof -
  have sc: "scaleNodePositions params1000
             ([mk_node ''a'' (Some (Fin 100)) (Some (Fin 100))] @
              [mk_node ''b'' (Some (Fin 200)) (Some (Fin 200))])
            = [mk_node ''a'' (Some (Fin 60)) (Some (Fin 60)), mk_node ''b'' (Some (Fin 940)) (Some (Fin 940))]"
    by (simp add: scaleNodePositions_def rescale_def skipped_def layout_ex_defs num_defs)
  have y: "node_y (nodes (d3ForceLayout sim_diag zero_x params1000) ! 1) = Some (Fin 500)"
    by (simp add: nth_d3ForceLayout zero_x_def copy_over_y scaleNodePositions_def rescale_def
          skipped_def mk_node_def)
  from zero_is_unpositioned [of "mk_node ''z'' (Some (Fin 0)) (Some (Fin 500))" zero_x
         "[mk_node ''a'' (Some (Fin 100)) (Some (Fin 100))]"
         "[mk_node ''b'' (Some (Fin 200)) (Some (Fin 200))]" params1000 sim_diag]
  have "scaleNodePositions params1000 (nodes zero_x)
           = take 1 (scaleNodePositions params1000
               ([mk_node ''a'' (Some (Fin 100)) (Some (Fin 100))] @
                [mk_node ''b'' (Some (Fin 200)) (Some (Fin 200))])) @
             mk_node ''z'' (Some (Fin 0)) (Some (Fin 500)) #
             drop 1 (scaleNodePositions params1000
               ([mk_node ''a'' (Some (Fin 100)) (Some (Fin 100))] @
                [mk_node ''b'' (Some (Fin 200)) (Some (Fin 200))])) \<and>
        node_x (nodes (d3ForceLayout sim_diag zero_x params1000) ! 1)
              = Some (sim_x (simnodes (simulated sim_diag zero_x params1000) ! 1))"
    by (simp add: zero_x_def mk_node_def)
  with sc y show ?thesis by simp
qed

subsection \<open>A zero extent\<close>

text \<open>
  Claim C5 fails on the code. With a single placed node, or two nodes that share
  their \<open>x\<close>, the extent \<^verbatim>\<open>maxX - minX\<close> is \<open>0\<close> and the division yields \<^verbatim>\<open>NaN\<close>,
  which is stored as the coordinate.
\<close>

theorem rescale_zero_extent_nan:
  "scaleNodePositions params1000 [mk_node ''a'' (Some (Fin 100)) (Some (Fin 100))]
     = [mk_node ''a'' (Some NaN) (Some NaN)] \<and>
   scaleNodePositions params1000
       [mk_node ''a'' (Some (Fin 100)) (Some (Fin 100)), mk_node ''b'' (Some (Fin 100)) (Some (Fin 200))]
     = [mk_node ''a'' (Some NaN) (Some (Fin 60)), mk_node ''b'' (Some NaN) (Some (Fin 940))]"
  by (simp add: scaleNodePositions_def rescale_def skipped_def layout_ex_defs num_defs)

section \<open>Properties of the tree layout\<close>

lemmas tree_defs = build_def attach_def ensure_def js_in_def Object_prototype_def children_def
  rootNode_def maxDepth_def tree_y_def heightDivision_def place_def upd_node_def sameLevelNodes_def
  spread_def node_of_def x_of_def y_of_def set_ends_def js_seq_def overlap_step_def overlaps_def
  mk_node_def mk_edge_def


subsection \<open>The hierarchy of any graph\<close>

lemma children_ensure: "children (ensure i m) u = children m u"
  by (auto simp: children_def ensure_def js_in_def dom_def split: option.splits)

lemma children_upd:
  "children (m(s \<mapsto> cs)) u = (if u = s then cs else children m u)"
  by (simp add: children_def)

text \<open>An edge that the loop survives is skipped or pushed.\<close>

lemma attach_cases:
  assumes "attach e st = Inr st'"
  shows "((source e \<in> set (children (hmap st) (target e)) \<or> target e \<in> nodeMapInTree st \<or>
           target e \<in> Object_prototype) \<and>
          children (hmap st') = children (hmap st) \<and> nodeMapInTree st' = nodeMapInTree st) \<or>
         (source e \<notin> set (children (hmap st) (target e)) \<and> target e \<notin> nodeMapInTree st \<and>
          target e \<notin> Object_prototype \<and>
          children (hmap st') = (\<lambda>u. if u = source e then children (hmap st) (source e) @ [target e]
                                      else children (hmap st) u) \<and>
          nodeMapInTree st' = insert (target e) (nodeMapInTree st))"
proof -
  define m where "m = ensure (source e) (ensure (target e) (hmap st))"
  have cm: "children m = children (hmap st)"
    unfolding m_def by (rule ext) (simp add: children_ensure)
  from assms obtain kids where kids: "m (target e) = Some kids"
    by (auto simp: attach_def Let_def m_def [symmetric] split: option.splits)
  then have "children m (target e) = kids" by (simp add: children_def)
  then have k: "kids = children (hmap st) (target e)" unfolding cm by simp
  show ?thesis
  proof (cases "source e \<in> set kids \<or> js_in (target e) (nodeMapInTree st)")
    case True
    with assms kids have "st' = st\<lparr>hmap := m\<rparr>"
      by (simp add: attach_def Let_def m_def [symmetric])
    with True cm show ?thesis unfolding k js_in_def by auto
  next
    case False
    with assms kids obtain cs where cs: "m (source e) = Some cs"
      and st': "st' = \<lparr>hmap = m(source e \<mapsto> cs @ [target e]),
                       nodeMapInTree = insert (target e) (nodeMapInTree st)\<rparr>"
      by (auto simp: attach_def Let_def m_def [symmetric] split: option.splits)
    from cs have "children m (source e) = cs" by (simp add: children_def)
    then have c: "cs = children (hmap st) (source e)" unfolding cm by simp
    have "children (hmap st') = (\<lambda>u. if u = source e then children (hmap st) (source e) @ [target e]
                                      else children (hmap st) u)"
      unfolding st' by (rule ext) (simp add: children_upd c cm)
    with False st' show ?thesis unfolding k js_in_def by auto
  qed
qed


lemma attach_attached:
  assumes "attached st" and "attach e st = Inr st'"
  shows "attached st'"
proof -
  define C where "C = children (hmap st)"
  define C' where "C' = children (hmap st')"
  define s where "s = source e"
  define t where "t = target e"
  from assms(1) have a1: "\<forall>u v. v \<in> set (C u) \<longrightarrow> v \<in> nodeMapInTree st"
    and a2: "\<forall>u u' v. v \<in> set (C u) \<and> v \<in> set (C u') \<longrightarrow> u = u'"
    and a3: "\<forall>u v. u \<noteq> v \<and> v \<in> set (C u) \<longrightarrow> u \<notin> set (C v)"
    and a4: "\<forall>u. distinct (C u)"
    and a5: "finite (nodeMapInTree st)"
    unfolding attached_def C_def by blast+
  from attach_cases [OF assms(2)]
  consider (skip) "C' = C" "nodeMapInTree st' = nodeMapInTree st"
    | (push) "s \<notin> set (C t)" "t \<notin> nodeMapInTree st"
        "C' = (\<lambda>u. if u = s then C s @ [t] else C u)"
        "nodeMapInTree st' = insert t (nodeMapInTree st)"
    unfolding C_def C'_def s_def t_def by blast
  then show ?thesis
  proof cases
    case skip
    from assms(1) show ?thesis
      unfolding attached_def C_def [symmetric] C'_def [symmetric] skip .
  next
    case push
    from push(2) a1 have fresh: "\<forall>u. t \<notin> set (C u)" by blast
    have mem: "v \<in> set (C' u) \<longleftrightarrow> v \<in> set (C u) \<or> (u = s \<and> v = t)" for u v
      unfolding push(3) by (cases "u = s") auto
    have n1: "\<forall>u v. v \<in> set (C' u) \<longrightarrow> v \<in> nodeMapInTree st'"
    proof (intro allI impI)
      fix u v assume "v \<in> set (C' u)"
      then have "v \<in> set (C u) \<or> v = t" unfolding mem by blast
      with a1 show "v \<in> nodeMapInTree st'" unfolding push(4) by blast
    qed
    have n2: "\<forall>u u' v. v \<in> set (C' u) \<and> v \<in> set (C' u') \<longrightarrow> u = u'"
    proof (intro allI impI)
      fix u u' v assume "v \<in> set (C' u) \<and> v \<in> set (C' u')"
      then have 1: "v \<in> set (C u) \<or> (u = s \<and> v = t)" and 2: "v \<in> set (C u') \<or> (u' = s \<and> v = t)"
        unfolding mem by blast+
      show "u = u'"
      proof (cases "v = t")
        case True
        with fresh have "v \<notin> set (C u)" "v \<notin> set (C u')" by blast+
        with 1 2 show ?thesis by blast
      next
        case False
        with 1 2 have "v \<in> set (C u) \<and> v \<in> set (C u')" by blast
        with a2 show ?thesis by blast
      qed
    qed
    have n3: "\<forall>u v. u \<noteq> v \<and> v \<in> set (C' u) \<longrightarrow> u \<notin> set (C' v)"
    proof (intro allI impI notI)
      fix u v assume h: "u \<noteq> v \<and> v \<in> set (C' u)" and "u \<in> set (C' v)"
      then have 1: "v \<in> set (C u) \<or> (u = s \<and> v = t)" and 2: "u \<in> set (C v) \<or> (v = s \<and> u = t)"
        unfolding mem by blast+
      from h have ne: "u \<noteq> v" by blast
      from a3 ne have 3: "\<not> (v \<in> set (C u) \<and> u \<in> set (C v))" by blast
      from 1 2 3 ne push(1) show False by blast
    qed
    have n4: "\<forall>u. distinct (C' u)"
    proof
      fix u
      from fresh have "t \<notin> set (C s)" by blast
      with a4 show "distinct (C' u)" unfolding push(3) by simp
    qed
    have n5: "finite (nodeMapInTree st')" unfolding push(4) using a5 by simp
    from n1 n2 n3 n4 n5 show ?thesis unfolding attached_def C'_def by (intro conjI)
  qed
qed

lemma attach_all_attached:
  "attached st \<Longrightarrow> attach_all es st = Inr st' \<Longrightarrow> attached st'"
proof (induction es arbitrary: st)
  case Nil
  then show ?case by simp
next
  case (Cons e es)
  from Cons.prems(2) obtain st1 where 1: "attach e st = Inr st1" and 2: "attach_all es st1 = Inr st'"
    by (auto split: sum.splits)
  from Cons.IH [OF attach_attached [OF Cons.prems(1) 1] 2] show ?case .
qed

lemma build_attached: "build rootId g = Inr st \<Longrightarrow> attached st"
  unfolding build_def
  by (erule attach_all_attached [rotated]) (simp add: attached_def children_def)

text \<open>Children are never taken away, a child comes from an edge, and so does an entry of \<^verbatim>\<open>nodeMapInTree\<close>.\<close>

lemma attach_grows:
  assumes "attach e st = Inr st'"
  shows "set (children (hmap st) u) \<subseteq> set (children (hmap st') u) \<and>
         nodeMapInTree st' \<subseteq> insert (target e) (nodeMapInTree st) \<and>
         (\<forall>c. c \<in> set (children (hmap st') u) \<longrightarrow>
               c \<in> set (children (hmap st) u) \<or> (source e = u \<and> target e = c))"
  using attach_cases [OF assms] by (elim disjE conjE) auto

lemma attach_all_grows:
  "attach_all es st = Inr st' \<Longrightarrow>
   set (children (hmap st) u) \<subseteq> set (children (hmap st') u) \<and>
   nodeMapInTree st' \<subseteq> nodeMapInTree st \<union> target ` set es \<and>
   (\<forall>c. c \<in> set (children (hmap st') u) \<longrightarrow>
         c \<in> set (children (hmap st) u) \<or> (\<exists>e \<in> set es. source e = u \<and> target e = c))"
proof (induction es arbitrary: st)
  case Nil
  then show ?case by simp
next
  case (Cons e es)
  from Cons.prems obtain st1 where 1: "attach e st = Inr st1" and 2: "attach_all es st1 = Inr st'"
    by (auto split: sum.splits)
  from attach_grows [OF 1, of u]
  have a1: "set (children (hmap st) u) \<subseteq> set (children (hmap st1) u)"
    and a2: "nodeMapInTree st1 \<subseteq> insert (target e) (nodeMapInTree st)"
    and a3: "\<And>c. c \<in> set (children (hmap st1) u) \<Longrightarrow>
               c \<in> set (children (hmap st) u) \<or> (source e = u \<and> target e = c)"
    by blast+
  from Cons.IH [OF 2]
  have b1: "set (children (hmap st1) u) \<subseteq> set (children (hmap st') u)"
    and b2: "nodeMapInTree st' \<subseteq> nodeMapInTree st1 \<union> target ` set es"
    and b3: "\<And>c. c \<in> set (children (hmap st') u) \<Longrightarrow>
               c \<in> set (children (hmap st1) u) \<or> (\<exists>e \<in> set es. source e = u \<and> target e = c)"
    by blast+
  have c1: "set (children (hmap st) u) \<subseteq> set (children (hmap st') u)"
    using a1 b1 by (rule subset_trans)
  have c2: "nodeMapInTree st' \<subseteq> nodeMapInTree st \<union> target ` set (e # es)"
  proof
    fix x assume "x \<in> nodeMapInTree st'"
    with b2 have "x \<in> nodeMapInTree st1 \<or> x \<in> target ` set es" by blast
    with a2 have "x \<in> nodeMapInTree st \<or> x = target e \<or> x \<in> target ` set es" by blast
    then show "x \<in> nodeMapInTree st \<union> target ` set (e # es)" by auto
  qed
  have c3: "\<forall>c. c \<in> set (children (hmap st') u) \<longrightarrow>
         c \<in> set (children (hmap st) u) \<or> (\<exists>e \<in> set (e # es). source e = u \<and> target e = c)"
  proof (intro allI impI)
    fix c assume "c \<in> set (children (hmap st') u)"
    from b3 [OF this] show "c \<in> set (children (hmap st) u) \<or> (\<exists>e \<in> set (e # es). source e = u \<and> target e = c)"
    proof
      assume "c \<in> set (children (hmap st1) u)"
      from a3 [OF this] show ?thesis by auto
    next
      assume "\<exists>e \<in> set es. source e = u \<and> target e = c"
      then show ?thesis by auto
    qed
  qed
  from c1 c2 c3 show ?case by (intro conjI)
qed


text \<open>A node that no earlier edge leads into has not been attached.\<close>

lemma unattached_before:
  assumes "i \<le> length (edges g)" and "\<forall>k < i. target (edges g ! k) \<noteq> B"
  shows "B \<notin> in_tree_before i rootId g"
proof (cases "read_until i rootId g")
  case (Inl e)
  then show ?thesis by (simp add: in_tree_before_def)
next
  case (Inr st1)
  show ?thesis
  proof
    assume "B \<in> in_tree_before i rootId g"
    then have "B \<in> nodeMapInTree st1" using Inr by (simp add: in_tree_before_def)
    with attach_all_grows [OF Inr [unfolded read_until_def], of undefined]
    have "B \<in> target ` set (take i (edges g))" by auto
    then obtain e where "e \<in> set (take i (edges g))" "target e = B" by auto
    then obtain k where "k < length (take i (edges g))" "take i (edges g) ! k = e"
      by (auto simp: in_set_conv_nth)
    with assms \<open>target e = B\<close> show False by auto
  qed
qed

text \<open>
  Two conditions on the edges alone: the loop does not throw when no end point of an
  edge is named like a property of \<^verbatim>\<open>Object.prototype\<close>, and the root is not
  attached when no edge leads into it.
\<close>

lemma attach_returns:
  assumes "source e \<notin> Object_prototype" "target e \<notin> Object_prototype"
  shows "\<exists>st'. attach e st = Inr st'"
proof -
  define m where "m = ensure (source e) (ensure (target e) (hmap st))"
  have t: "target e \<in> dom m" and s: "source e \<in> dom m"
    using assms unfolding m_def ensure_def js_in_def by auto
  then obtain kids cs where "m (target e) = Some kids" "m (source e) = Some cs" by auto
  then show ?thesis unfolding attach_def Let_def m_def [symmetric] by simp
qed

lemma attach_all_returns:
  "\<forall>e \<in> set es. source e \<notin> Object_prototype \<and> target e \<notin> Object_prototype \<Longrightarrow>
   \<exists>st'. attach_all es st = Inr st'"
proof (induction es arbitrary: st)
  case Nil
  show ?case by simp
next
  case (Cons e es)
  from Cons.prems attach_returns [of e st] obtain st1 where 1: "attach e st = Inr st1" by auto
  from Cons.prems Cons.IH [of st1] obtain st' where "attach_all es st1 = Inr st'" by auto
  with 1 show ?case by simp
qed

lemma build_returns:
  "\<forall>e \<in> set (edges g). source e \<notin> Object_prototype \<and> target e \<notin> Object_prototype \<Longrightarrow>
   \<exists>st. build rootId g = Inr st"
  unfolding build_def by (rule attach_all_returns)

lemma build_root_free:
  assumes "build rootId g = Inr st"
    and "\<forall>e \<in> set (edges g). target e \<noteq> node_id (rootNode rootId (nodes g))"
  shows "node_id (rootNode rootId (nodes g)) \<notin> nodeMapInTree st"
proof
  assume "node_id (rootNode rootId (nodes g)) \<in> nodeMapInTree st"
  with attach_all_grows [OF assms(1) [unfolded build_def], of undefined]
  have "node_id (rootNode rootId (nodes g)) \<in> target ` set (edges g)" by auto
  with assms(2) show False by auto
qed

text \<open>
  For every graph on which the loop over the edges does not throw: in the hierarchy
  that it builds a node is a child of at most one node, and of two different nodes
  at most one is a child of the other.
\<close>

lemma build_one_parent:
  assumes "build rootId g = Inr st"
  shows "(v \<in> set (children (hmap st) u) \<and> v \<in> set (children (hmap st) u') \<longrightarrow> u = u') \<and>
         (u \<noteq> v \<and> v \<in> set (children (hmap st) u) \<longrightarrow> u \<notin> set (children (hmap st) v))"
  using build_attached [OF assms] unfolding attached_def by blast

subsection \<open>The walk over a hierarchy whose root has no parent\<close>

lemma walk_returns:
  assumes i1: "\<forall>u v. v \<in> set (children m u) \<longrightarrow> v \<in> T"
    and i2: "\<forall>u u' v. v \<in> set (children m u) \<and> v \<in> set (children m u') \<longrightarrow> u = u'"
    and i4: "\<forall>u. distinct (children m u)"
    and fin: "finite T" and acyclic: "(r, r) \<notin> (child_rel m)\<^sup>+"
  shows "distinct (map fst stack @ map fst acc) \<Longrightarrow>
         (\<forall>v \<in> fst ` (set stack \<union> set acc). v = r \<or> (\<exists>u \<in> fst ` set acc. v \<in> set (children m u))) \<Longrightarrow>
         (\<forall>u d. (u, d) \<in> set acc \<longrightarrow> (\<forall>c \<in> set (children m u). (c, Suc d) \<in> set stack \<union> set acc)) \<Longrightarrow>
         fst ` (set stack \<union> set acc) \<subseteq> insert r T \<Longrightarrow>
         (\<forall>v \<in> fst ` (set stack \<union> set acc). (r, v) \<in> (child_rel m)\<^sup>*) \<Longrightarrow>
         \<exists>res. walk m stack acc = Some res \<and> distinct (map fst res) \<and>
               set stack \<union> set acc \<subseteq> set res \<and>
               (\<forall>u d. (u, d) \<in> set res \<longrightarrow> (\<forall>c \<in> set (children m u). (c, Suc d) \<in> set res))"
proof (induction "card (insert r T - fst ` set acc)" arbitrary: stack acc rule: less_induct)
  case less
  note J1 = less.prems(1) and J2 = less.prems(2) and J3 = less.prems(3) and J4 = less.prems(4)
    and J5 = less.prems(5)
  show ?case
  proof (cases stack)
    case Nil
    have w: "walk m stack acc = Some (rev acc)" unfolding Nil by (simp add: walk.simps)
    from J1 have d: "distinct (map fst (rev acc))" unfolding Nil by (simp add: rev_map [symmetric])
    from J3 have c: "\<forall>u d. (u, d) \<in> set (rev acc) \<longrightarrow> (\<forall>c \<in> set (children m u). (c, Suc d) \<in> set (rev acc))"
      unfolding Nil by simp
    from w d c show ?thesis unfolding Nil by simp
  next
    case (Cons x rest)
    obtain v d where x: "x = (v, d)" by (cases x)
    define kids where "kids = map (\<lambda>c. (c, Suc d)) (children m v)"
    have fk: "map fst kids = children m v" unfolding kids_def by (simp add: comp_def)
    have sk: "fst ` set kids = set (children m v)" using fk by (metis set_map)
    have unf: "walk m stack acc = walk m (kids @ rest) ((v, d) # acc)"
      unfolding Cons x kids_def by (subst walk.simps) simp
    from J1 have v_acc: "v \<notin> fst ` set acc" and v_rest: "v \<notin> fst ` set rest"
      and d_rest: "distinct (map fst rest)" and d_acc: "distinct (map fst acc)"
      and dis: "fst ` set rest \<inter> fst ` set acc = {}"
      unfolding Cons x by auto
    from J4 have v_N: "v \<in> insert r T" unfolding Cons x by simp
    have meas: "card (insert r T - fst ` set ((v, d) # acc)) < card (insert r T - fst ` set acc)"
    proof (rule psubset_card_mono)
      show "finite (insert r T - fst ` set acc)" using fin by simp
      show "insert r T - fst ` set ((v, d) # acc) \<subset> insert r T - fst ` set acc"
        using v_N v_acc by auto
    qed
    have fresh: "c \<notin> fst ` set stack \<union> fst ` set acc" if c: "c \<in> set (children m v)" for c
    proof
      assume in_old: "c \<in> fst ` set stack \<union> fst ` set acc"
      then have "c \<in> fst ` (set stack \<union> set acc)" by blast
      with J2 have "c = r \<or> (\<exists>u \<in> fst ` set acc. c \<in> set (children m u))" by blast
      then show False
      proof
        assume "c = r"
        with c have "(v, r) \<in> child_rel m" by (simp add: child_rel_def)
        moreover from J5 have "(r, v) \<in> (child_rel m)\<^sup>*" unfolding Cons x by simp
        ultimately have "(r, r) \<in> (child_rel m)\<^sup>+" by (rule rtrancl_into_trancl1 [rotated])
        with acyclic show False by contradiction
      next
        assume "\<exists>u \<in> fst ` set acc. c \<in> set (children m u)"
        then obtain u where u: "u \<in> fst ` set acc" "c \<in> set (children m u)" by blast
        with c i2 have "u = v" by blast
        with u(1) v_acc show False by blast
      qed
    qed
    then have fresh_rest: "set (children m v) \<inter> fst ` set rest = {}"
      and fresh_acc: "set (children m v) \<inter> fst ` set acc = {}"
      and fresh_v: "v \<notin> set (children m v)"
      unfolding Cons x by auto
    have J1': "distinct (map fst (kids @ rest) @ map fst ((v, d) # acc))"
      using i4 d_rest d_acc dis v_acc v_rest fresh_rest fresh_acc fresh_v
      by (auto simp: fk)
    have J2': "\<forall>w \<in> fst ` (set (kids @ rest) \<union> set ((v, d) # acc)).
                 w = r \<or> (\<exists>u \<in> fst ` set ((v, d) # acc). w \<in> set (children m u))"
    proof
      fix w assume "w \<in> fst ` (set (kids @ rest) \<union> set ((v, d) # acc))"
      then have "w \<in> set (children m v) \<or> w \<in> fst ` (set stack \<union> set acc)"
        unfolding Cons x using sk by (auto simp: image_Un)
      then show "w = r \<or> (\<exists>u \<in> fst ` set ((v, d) # acc). w \<in> set (children m u))"
      proof
        assume "w \<in> set (children m v)"
        then show ?thesis by auto
      next
        assume "w \<in> fst ` (set stack \<union> set acc)"
        with J2 have "w = r \<or> (\<exists>u \<in> fst ` set acc. w \<in> set (children m u))" by blast
        then show ?thesis by auto
      qed
    qed
    have J3': "\<forall>u e. (u, e) \<in> set ((v, d) # acc) \<longrightarrow>
                 (\<forall>c \<in> set (children m u). (c, Suc e) \<in> set (kids @ rest) \<union> set ((v, d) # acc))"
    proof (intro allI impI ballI)
      fix u e c assume ue: "(u, e) \<in> set ((v, d) # acc)" and c: "c \<in> set (children m u)"
      show "(c, Suc e) \<in> set (kids @ rest) \<union> set ((v, d) # acc)"
      proof (cases "(u, e) = (v, d)")
        case True
        with c have "(c, Suc e) \<in> set kids" unfolding kids_def by auto
        then show ?thesis by simp
      next
        case False
        with ue have "(u, e) \<in> set acc" by auto
        with J3 c have "(c, Suc e) \<in> set stack \<union> set acc" by blast
        then show ?thesis unfolding Cons x by auto
      qed
    qed
    have J4': "fst ` (set (kids @ rest) \<union> set ((v, d) # acc)) \<subseteq> insert r T"
    proof
      fix w assume "w \<in> fst ` (set (kids @ rest) \<union> set ((v, d) # acc))"
      then have "w \<in> set (children m v) \<or> w \<in> fst ` (set stack \<union> set acc)"
        unfolding Cons x using sk by (auto simp: image_Un)
      with i1 J4 show "w \<in> insert r T" by blast
    qed
    have J5': "\<forall>w \<in> fst ` (set (kids @ rest) \<union> set ((v, d) # acc)). (r, w) \<in> (child_rel m)\<^sup>*"
    proof
      fix w assume "w \<in> fst ` (set (kids @ rest) \<union> set ((v, d) # acc))"
      then have "w \<in> set (children m v) \<or> w \<in> fst ` (set stack \<union> set acc)"
        unfolding Cons x using sk by (auto simp: image_Un)
      then show "(r, w) \<in> (child_rel m)\<^sup>*"
      proof
        assume "w \<in> set (children m v)"
        then have "(v, w) \<in> child_rel m" by (simp add: child_rel_def)
        moreover from J5 have "(r, v) \<in> (child_rel m)\<^sup>*" unfolding Cons x by simp
        ultimately show ?thesis by (rule rtrancl_into_rtrancl [rotated])
      next
        assume "w \<in> fst ` (set stack \<union> set acc)"
        with J5 show ?thesis by blast
      qed
    qed
    from less.hyps [OF meas J1' J2' J3' J4' J5']
    obtain res where res: "walk m (kids @ rest) ((v, d) # acc) = Some res" "distinct (map fst res)"
      "set (kids @ rest) \<union> set ((v, d) # acc) \<subseteq> set res"
      "\<forall>u d. (u, d) \<in> set res \<longrightarrow> (\<forall>c \<in> set (children m u). (c, Suc d) \<in> set res)"
      by blast
    from res(3) have "set stack \<union> set acc \<subseteq> set res" unfolding Cons x by auto
    with res(1,2,4) unf show ?thesis by simp
  qed
qed

lemma walk_hierarchy:
  assumes "attached st" and "(r, r) \<notin> (child_rel (hmap st))\<^sup>+"
  shows "\<exists>hier. walk (hmap st) [(r, 0)] [] = Some hier \<and> distinct (map fst hier) \<and>
           (r, 0) \<in> set hier \<and>
           (\<forall>u d. (u, d) \<in> set hier \<longrightarrow> (\<forall>c \<in> set (children (hmap st) u). (c, Suc d) \<in> set hier))"
proof -
  from assms(1) have i1: "\<forall>u v. v \<in> set (children (hmap st) u) \<longrightarrow> v \<in> nodeMapInTree st"
    and i2: "\<forall>u u' v. v \<in> set (children (hmap st) u) \<and> v \<in> set (children (hmap st) u') \<longrightarrow> u = u'"
    and i4: "\<forall>u. distinct (children (hmap st) u)"
    and fin: "finite (nodeMapInTree st)"
    unfolding attached_def by blast+
  from walk_returns [OF i1 i2 i4 fin assms(2), of "[(r, 0)]" "[]"]
  show ?thesis by simp
qed




subsection \<open>Where the layout puts a node of the hierarchy\<close>

lemma node_of_id: "node_of ns a = Some n \<Longrightarrow> node_id n = a"
  by (induction ns) (auto simp: node_of_def split: if_splits)


lemma node_of_upd:
  assumes "\<And>n. node_id (f n) = node_id n"
  shows "node_of (upd_node i f ns) a = map_option (\<lambda>n. if a = i then f n else n) (node_of ns a)"
  by (induction ns) (auto simp: node_of_def upd_node_def assms)

lemma fold_upd_other:
  assumes "\<And>i n. node_id (G i n) = node_id n"
  shows "a \<notin> set is \<Longrightarrow> node_of (fold (\<lambda>i. upd_node i (G i)) is ns) a = node_of ns a"
proof (induction "is" arbitrary: ns)
  case Nil
  show ?case by simp
next
  case (Cons i "is")
  from Cons.prems have "a \<noteq> i" "a \<notin> set is" by auto
  with Cons.IH [of "upd_node i (G i) ns"] show ?case
    by (simp add: node_of_upd [of "G i", OF assms] option.map_ident)
qed







subsection \<open>The offsets of a reciprocal pair of edges\<close>













subsection \<open>The two-node cycle\<close>










subsection \<open>Where the loop over the edges and the walk go wrong\<close>

text \<open>The walk does not return while a node that is below itself is on the stack.\<close>

lemma walk_returned:
  assumes "walk m stack acc = Some y"
  shows "\<not> (\<exists>v d. (v, d) \<in> set stack \<and> (v, v) \<in> (child_rel m)\<^sup>+)"
proof (rule walk.raw_induct [where P = "\<lambda>m stack acc y.
    \<not> (\<exists>v d. (v, d) \<in> set stack \<and> (v, v) \<in> (child_rel m)\<^sup>+)", OF _ assms])
  fix w :: "(ident \<rightharpoonup> ident list) \<Rightarrow> (ident \<times> nat) list \<Rightarrow> (ident \<times> nat) list \<Rightarrow> (ident \<times> nat) list option"
    and m stack acc y
  assume IH: "\<And>m stack acc y. w m stack acc = Some y \<Longrightarrow>
                \<not> (\<exists>v d. (v, d) \<in> set stack \<and> (v, v) \<in> (child_rel m)\<^sup>+)"
    and eq: "(case stack of [] \<Rightarrow> Some (rev acc)
              | (i, d) # rest \<Rightarrow> w m (map (\<lambda>c. (c, Suc d)) (children m i) @ rest) ((i, d) # acc))
             = Some y"
  show "\<not> (\<exists>v d. (v, d) \<in> set stack \<and> (v, v) \<in> (child_rel m)\<^sup>+)"
  proof
    assume "\<exists>v d. (v, d) \<in> set stack \<and> (v, v) \<in> (child_rel m)\<^sup>+"
    then obtain v e where v: "(v, e) \<in> set stack" "(v, v) \<in> (child_rel m)\<^sup>+" by blast
    then obtain x rest where st: "stack = x # rest" by (cases stack) auto
    obtain i d where x: "x = (i, d)" by (cases x)
    from eq have "w m (map (\<lambda>c. (c, Suc d)) (children m i) @ rest) ((i, d) # acc) = Some y"
      unfolding st x by simp
    then have no: "\<not> (\<exists>v e. (v, e) \<in> set (map (\<lambda>c. (c, Suc d)) (children m i) @ rest) \<and>
                          (v, v) \<in> (child_rel m)\<^sup>+)"
      by (rule IH)
    show False
    proof (cases "(v, e) \<in> set rest")
      case True
      with v(2) no show False by auto
    next
      case False
      with v(1) have vi: "v = i" "e = d" unfolding st x by auto
      from v(2) obtain c where c: "(v, c) \<in> child_rel m" "(c, v) \<in> (child_rel m)\<^sup>*"
        by (auto dest: tranclD)
      from c(2) c(1) have "(c, c) \<in> (child_rel m)\<^sup>+" by (rule rtrancl_into_trancl1)
      moreover from c(1) have "(c, Suc d) \<in> set (map (\<lambda>c. (c, Suc d)) (children m i) @ rest)"
        unfolding vi by (simp add: child_rel_def)
      ultimately show False using no by blast
    qed
  qed
qed

lemma walk_diverges: "(r, r) \<in> (child_rel m)\<^sup>+ \<Longrightarrow> walk m [(r, d)] acc = None"
  using walk_returned [of m "[(r, d)]" acc] by (cases "walk m [(r, d)] acc") auto

text \<open>
  So the layout returns exactly when the loop over the edges does not throw and
  leaves a hierarchy in which the root is not below itself.
\<close>

lemma tree_layout_returns:
  assumes "nodes g \<noteq> []"
  shows "(\<exists>g'. d3TreeLayout tree_x rootId g p = Some (Inr g')) \<longleftrightarrow>
         (\<exists>st. build rootId g = Inr st \<and>
               (node_id (rootNode rootId (nodes g)), node_id (rootNode rootId (nodes g)))
                 \<notin> (child_rel (hmap st))\<^sup>+)"
proof (cases "build rootId g")
  case (Inl e)
  with assms show ?thesis by (simp add: d3TreeLayout_def)
next
  case (Inr st)
  show ?thesis
  proof (cases "(node_id (rootNode rootId (nodes g)), node_id (rootNode rootId (nodes g)))
                  \<in> (child_rel (hmap st))\<^sup>+")
    case True
    from walk_diverges [OF True] assms Inr True show ?thesis
      by (simp add: d3TreeLayout_def)
  next
    case False
    from walk_hierarchy [OF build_attached [OF Inr] False]
    obtain hier where "walk (hmap st) [(node_id (rootNode rootId (nodes g)), 0)] [] = Some hier"
      by blast
    with assms Inr False show ?thesis by (simp add: d3TreeLayout_def Let_def)
  qed
qed

text \<open>
  The root is never entered in \<^verbatim>\<open>nodeMapInTree\<close>, so an edge into the root that is
  not the reverse of an edge read before it makes the root a child. On the cycle
  \<open>A \<rightarrow> B \<rightarrow> C \<rightarrow> A\<close> the third edge attaches the root \<open>A\<close> under \<open>C\<close>, the children
  arrays reachable from the root form a cycle, and the walk over them never ends:
  the layout does not return, whatever the layout parameters, although the comment
  at the skip rules says that they prevent endless loops. The same holds when a
  two-node cycle between \<open>A\<close> and \<open>B\<close> lies on such a cycle.
\<close>

theorem tree_layout_cycle_through_root:
  "d3TreeLayout tree_x None cycle3 layoutParams = None \<and>
   d3TreeLayout tree_x None cycle2_in_cycle3 layoutParams = None"
proof -
  let ?m = "[''A'' \<mapsto> [''B''], ''B'' \<mapsto> [''C''], ''C'' \<mapsto> [''A'']]"
  have r: "node_id (rootNode None (nodes cycle3)) = ''A''" and ne: "nodes cycle3 \<noteq> []"
    by (simp_all add: rootNode_def cycle3_def mk_node_def)
  have b: "build None cycle3 = Inr \<lparr>hmap = ?m, nodeMapInTree = {''A'', ''C'', ''B''}\<rparr>"
    by (simp add: cycle3_def tree_defs)
  have "(''A'', ''B'') \<in> child_rel ?m" "(''B'', ''C'') \<in> child_rel ?m" "(''C'', ''A'') \<in> child_rel ?m"
    by (simp_all add: child_rel_def children_def)
  then have "(''A'', ''A'') \<in> (child_rel ?m)\<^sup>+" by (meson trancl.simps)
  then have w: "walk ?m [(''A'', 0)] [] = None" by (rule walk_diverges)
  have 1: "d3TreeLayout tree_x None cycle3 layoutParams = None"
    unfolding d3TreeLayout_def b r using ne by (simp add: w)
  have r': "node_id (rootNode None (nodes cycle2_in_cycle3)) = ''A''"
    and ne': "nodes cycle2_in_cycle3 \<noteq> []"
    by (simp_all add: rootNode_def cycle2_in_cycle3_def mk_node_def)
  have b': "build None cycle2_in_cycle3 = Inr \<lparr>hmap = ?m, nodeMapInTree = {''A'', ''C'', ''B''}\<rparr>"
    by (simp add: cycle2_in_cycle3_def tree_defs)
  have 2: "d3TreeLayout tree_x None cycle2_in_cycle3 layoutParams = None"
    unfolding d3TreeLayout_def b' r' using ne' by (simp add: w)
  from 1 2 show ?thesis by simp
qed

text \<open>
  With the edge into the root first, the root \<open>A\<close> becomes a child of \<open>B\<close>, the
  hierarchy under the root is \<open>A\<close> alone, \<open>B\<close> is given no position, and every offset
  of the two edges is \<^verbatim>\<open>NaN\<close>.
\<close>

theorem tree_layout_edge_into_root:
  "d3TreeLayout tree_x_mid None cycle2_rev params1000 = Some (Inr
     \<lparr>nodes =
        [\<lparr>node_id = ''A'', node_x = Some (Fin 500), node_y = Some (Fin 500), radius = Some (Fin 50)\<rparr>,
         \<lparr>node_id = ''B'', node_x = None, node_y = None, radius = None\<rparr>],
      edges =
        [\<lparr>edge_id = ''e1'', source = ''B'', target = ''A'',
          edge_x1 = None, edge_x2 = Some (Fin 500), edge_y1 = None, edge_y2 = Some (Fin 500),
          styles_x1 = Some NaN, styles_x2 = Some NaN, styles_y1 = Some NaN, styles_y2 = Some NaN,
          overlapped = True\<rparr>,
         \<lparr>edge_id = ''e2'', source = ''A'', target = ''B'',
          edge_x1 = Some (Fin 500), edge_x2 = None, edge_y1 = Some (Fin 500), edge_y2 = None,
          styles_x1 = Some NaN, styles_x2 = Some NaN, styles_y1 = Some NaN, styles_y2 = Some NaN,
          overlapped = True\<rparr>]\<rparr>)"
proof -
  have b: "build None cycle2_rev
     = Inr \<lparr>hmap = [''A'' \<mapsto> [], ''B'' \<mapsto> [''A'']], nodeMapInTree = {''A''}\<rparr>"
    by (simp add: cycle2_rev_def tree_defs fun_upd_twist)
  have r: "node_id (rootNode None (nodes cycle2_rev)) = ''A''"
    by (simp add: rootNode_def cycle2_rev_def mk_node_def)
  have w: "walk [''A'' \<mapsto> [], ''B'' \<mapsto> [''A'']] [(''A'', 0)] [] = Some [(''A'', 0)]"
    by (simp add: walk.simps children_def)
  show ?thesis
    unfolding d3TreeLayout_def b r
    by (simp add: w)
       (simp add: cycle2_rev_def tree_defs Let_def params1000_def tree_x_mid_def js_inf_def
          js_sub_def upt_rec)
qed

text \<open>
  A node whose id is a property name of \<^verbatim>\<open>Object.prototype\<close> is found \<^verbatim>\<open>in map\<close> without
  an entry of its own: the first edge into it throws a \<^verbatim>\<open>TypeError\<close>.
\<close>

theorem tree_layout_prototype_name:
  "d3TreeLayout tree_x None (cycle2 ''A'' ''toString'') layoutParams = Some (Inl TypeError)"
proof -
  have "build None (cycle2 ''A'' ''toString'') = Inl TypeError"
    by (simp add: cycle2_def tree_defs)
  then show ?thesis by (simp add: d3TreeLayout_def cycle2_def)
qed

text \<open>
  A second layout compares the offsets that the first one left in the styles, finds
  them different, and keeps them: laid out again on a canvas 2000 wide, the nodes
  move to \<open>x = 1000\<close> and the edges keep the offsets around \<open>x = 500\<close>.
\<close>

theorem tree_layout_again:
  "d3TreeLayout tree_x_mid None (cycle2 ''A'' ''B'') params1000 = Some (Inr cycle2_laid_out) \<and>
   d3TreeLayout tree_x_mid None cycle2_laid_out params2000 = Some (Inr
     \<lparr>nodes =
        [\<lparr>node_id = ''A'', node_x = Some (Fin 1000), node_y = Some (Fin (1000 / 3)), radius = Some (Fin 50)\<rparr>,
         \<lparr>node_id = ''B'', node_x = Some (Fin 1000), node_y = Some (Fin (2000 / 3)), radius = Some (Fin 50)\<rparr>],
      edges =
        [\<lparr>edge_id = ''e1'', source = ''A'', target = ''B'',
          edge_x1 = Some (Fin 1000), edge_x2 = Some (Fin 1000),
          edge_y1 = Some (Fin (1000 / 3)), edge_y2 = Some (Fin (2000 / 3)),
          styles_x1 = Some (Fin 495), styles_x2 = Some (Fin 495),
          styles_y1 = Some (Fin (1000 / 3)), styles_y2 = Some (Fin (2000 / 3)),
          overlapped = True\<rparr>,
         \<lparr>edge_id = ''e2'', source = ''B'', target = ''A'',
          edge_x1 = Some (Fin 1000), edge_x2 = Some (Fin 1000),
          edge_y1 = Some (Fin (2000 / 3)), edge_y2 = Some (Fin (1000 / 3)),
          styles_x1 = Some (Fin 505), styles_x2 = Some (Fin 505),
          styles_y1 = Some (Fin (2000 / 3)), styles_y2 = Some (Fin (1000 / 3)),
          overlapped = True\<rparr>]\<rparr>)"
proof -
  have b: "build None (cycle2 ''A'' ''B'')
     = Inr \<lparr>hmap = [''A'' \<mapsto> [''B''], ''B'' \<mapsto> []], nodeMapInTree = {''B''}\<rparr>"
    by (simp add: cycle2_def tree_defs fun_upd_twist)
  have b': "build None cycle2_laid_out
     = Inr \<lparr>hmap = [''A'' \<mapsto> [''B''], ''B'' \<mapsto> []], nodeMapInTree = {''B''}\<rparr>"
    by (simp add: cycle2_laid_out_def tree_defs fun_upd_twist)
  have r: "node_id (rootNode None (nodes (cycle2 ''A'' ''B''))) = ''A''"
    "node_id (rootNode None (nodes cycle2_laid_out)) = ''A''"
    by (simp_all add: rootNode_def cycle2_def cycle2_laid_out_def mk_node_def)
  have w: "walk [''A'' \<mapsto> [''B''], ''B'' \<mapsto> []] [(''A'', 0)] [] = Some [(''A'', 0), (''B'', Suc 0)]"
    by (simp add: walk.simps children_def)
  have sq: "sqrt (1000000 / 9) = (1000::real) / 3"
  proof -
    have "(1000000::real) / 9 = (1000 / 3) * (1000 / 3)" by simp
    then show ?thesis by (simp only: real_sqrt_abs2 abs_divide abs_numeral)
  qed
  have 1: "d3TreeLayout tree_x_mid None (cycle2 ''A'' ''B'') params1000 = Some (Inr cycle2_laid_out)"
    unfolding d3TreeLayout_def b r
    by (simp add: w)
       (simp add: cycle2_def cycle2_laid_out_def tree_defs Let_def params1000_def tree_x_mid_def
          js_inf_def js_sub_def upt_rec sq)
  have 2: "d3TreeLayout tree_x_mid None cycle2_laid_out params2000 = Some (Inr
     \<lparr>nodes =
        [\<lparr>node_id = ''A'', node_x = Some (Fin 1000), node_y = Some (Fin (1000 / 3)), radius = Some (Fin 50)\<rparr>,
         \<lparr>node_id = ''B'', node_x = Some (Fin 1000), node_y = Some (Fin (2000 / 3)), radius = Some (Fin 50)\<rparr>],
      edges =
        [\<lparr>edge_id = ''e1'', source = ''A'', target = ''B'',
          edge_x1 = Some (Fin 1000), edge_x2 = Some (Fin 1000),
          edge_y1 = Some (Fin (1000 / 3)), edge_y2 = Some (Fin (2000 / 3)),
          styles_x1 = Some (Fin 495), styles_x2 = Some (Fin 495),
          styles_y1 = Some (Fin (1000 / 3)), styles_y2 = Some (Fin (2000 / 3)),
          overlapped = True\<rparr>,
         \<lparr>edge_id = ''e2'', source = ''B'', target = ''A'',
          edge_x1 = Some (Fin 1000), edge_x2 = Some (Fin 1000),
          edge_y1 = Some (Fin (2000 / 3)), edge_y2 = Some (Fin (1000 / 3)),
          styles_x1 = Some (Fin 505), styles_x2 = Some (Fin 505),
          styles_y1 = Some (Fin (2000 / 3)), styles_y2 = Some (Fin (1000 / 3)),
          overlapped = True\<rparr>]\<rparr>)"
    unfolding d3TreeLayout_def b' r
    by (simp add: w)
       (simp add: cycle2_laid_out_def tree_defs Let_def params2000_def tree_x_mid_def
          js_inf_def js_sub_def upt_rec)
  from 1 2 show ?thesis by simp
qed

end
